theory Spec2Isabelle
  imports Complex_Main
begin

section \<open>Iterative solver for kinematic moves (klippy/chelper/itersolve.c)\<close>

text \<open>
  The C type \<open>double\<close> is modelled by \<^typ>\<open>real\<close>: arithmetic is exact, there is no
  rounding, no infinity, no NaN and no negative zero. \<open>signbit x\<close> is therefore \<open>x < 0\<close>
  and \<open>!x\<close> is \<open>x = 0\<close>. The C type \<open>int\<close> is modelled by \<^typ>\<open>int\<close>; the only integers
  the solver computes itself are the truth values 0 and 1.
\<close>

subsection \<open>Data\<close>

text \<open>\<open>struct timepos { double time, position; }\<close>\<close>

record timepos =
  time :: real
  position :: real

text \<open>
  \<open>struct move\<close> (trapq.h): the solver itself reads \<open>print_time\<close> and \<open>move_t\<close> only; the
  remaining coefficients are read by the position callback.
\<close>

record move =
  print_time :: real
  move_t :: real

text \<open>
  \<open>struct stepper_kinematics\<close> (itersolve.h). Function pointers and the pointer to the
  step queue are addresses; address 0 is the null pointer.
\<close>

type_synonym pointer = nat

record stepper_kinematics =
  step_dist :: real
  commanded_pos :: real
  sc :: pointer
  calc_position_cb :: pointer
  post_cb :: pointer

text \<open>
  The calls the solver makes to code outside the file, in the order it makes them. A
  queue call that returns a status is recorded with the status it returned.
\<close>

datatype event =
    Calc real                \<comment> \<open>\<open>calc_position_cb(sk, m, t)\<close>\<close>
  | QStart real real         \<comment> \<open>\<open>queue_append_start(sc, print_time, .5)\<close>\<close>
  | QSetDir int int          \<comment> \<open>\<open>queue_append_set_next_step_dir(&qa, sdir)\<close> and its status\<close>
  | QAppend real int         \<comment> \<open>\<open>queue_append(&qa, clock)\<close> and its status\<close>
  | QFinish                  \<comment> \<open>\<open>queue_append_finish(qa)\<close>\<close>
  | Post                     \<comment> \<open>\<open>sk->post_cb(sk)\<close>\<close>

text \<open>
  The code behind the pointers (stepcompress.c and the kinematics callbacks) is not part
  of the file; it is a parameter of the model. The position callback is a function of
  its arguments. The post callback receives the structure and may write to it. The
  status of a queue call is a function of the calls made so far and of its argument,
  which covers every deterministic queue.
\<close>

record extern =
  calc_position :: "pointer \<Rightarrow> stepper_kinematics \<Rightarrow> move \<Rightarrow> real \<Rightarrow> real"
  post :: "pointer \<Rightarrow> stepper_kinematics \<Rightarrow> stepper_kinematics"
  stepcompress_get_mcu_freq :: "pointer \<Rightarrow> real"
  stepcompress_get_step_dir :: "pointer \<Rightarrow> int"
  queue_append :: "event list \<Rightarrow> real \<Rightarrow> int"
  queue_append_set_next_step_dir :: "event list \<Rightarrow> int \<Rightarrow> int"

subsection \<open>Find step using the "false position" method\<close>

text \<open>
  The \<open>for (;;)\<close> loop of \<open>itersolve_find_step\<close>. It has no iteration bound, so it is a
  partial function: \<open>None\<close> is a loop that never leaves. \<open>calc\<close> is the callback applied
  to \<open>sk\<close> and \<open>m\<close>; \<open>tr\<close> is the list of calls made so far.
\<close>

partial_function (option) find_step_loop ::
  "(real \<Rightarrow> real) \<Rightarrow> real \<Rightarrow> bool \<Rightarrow> timepos \<Rightarrow> timepos \<Rightarrow> timepos \<Rightarrow> event list
     \<Rightarrow> (timepos \<times> event list) option"
where
  "find_step_loop calc target high_sign low high best_guess tr =
     (let guess_time = (time low * position high - time high * position low)
                       / (position high - position low)
      in if \<bar>guess_time - time best_guess\<bar> \<le> 1 / 1000000000
         then Some (best_guess, tr)
         else
           let guess = \<lparr>time = guess_time, position = calc guess_time\<rparr>;
               guess_position = position guess - target;
               guess_sign = (guess_position < 0)
           in if guess_sign = high_sign
              then find_step_loop calc target high_sign low
                     \<lparr>time = guess_time, position = guess_position\<rparr> guess
                     (tr @ [Calc guess_time])
              else find_step_loop calc target high_sign
                     \<lparr>time = guess_time, position = guess_position\<rparr> high guess
                     (tr @ [Calc guess_time]))"

declare find_step_loop.simps [code]

definition itersolve_find_step ::
  "(real \<Rightarrow> real) \<Rightarrow> timepos \<Rightarrow> timepos \<Rightarrow> real \<Rightarrow> event list
     \<Rightarrow> (timepos \<times> event list) option"
where
  "itersolve_find_step calc low high target tr =
     (let best_guess = high;
          low' = low\<lparr>position := position low - target\<rparr>;
          high' = high\<lparr>position := position high - target\<rparr>
      in if position high' = 0 then Some (best_guess, tr)
         else
           let high_sign = (position high' < 0)
           in if high_sign = (position low' < 0)
              then Some (\<lparr>time = time low', position = target\<rparr>, tr)
              else find_step_loop calc target high_sign low' high' best_guess tr)"

subsection \<open>Generate step times for a stepper during a move\<close>

text \<open>The local variables of \<open>itersolve_gen_steps\<close> that change in its loop.\<close>

record gen_state =
  last_tp :: timepos
  low_tp :: timepos
  high_tp :: timepos
  seek_time_delta :: real
  sdir :: int
  calls :: "event list"

text \<open>How the loop is left: \<open>return ret\<close> inside it, or \<open>break\<close> with the value of \<open>last\<close>.\<close>

datatype loop_exit = Failed int | Finished timepos

datatype iter_result = Continue gen_state | Exit loop_exit "event list"

text \<open>
  The block at the label \<open>seek_new_high_range\<close>: it ends in \<open>break\<close> or in \<open>continue\<close>.
\<close>

definition seek_new_high_range :: "(real \<Rightarrow> real) \<Rightarrow> real \<Rightarrow> gen_state \<Rightarrow> iter_result" where
  "seek_new_high_range calc mt st =
     (if time (high_tp st) \<ge> mt
      then Exit (Finished (last_tp st)) (calls st)
      else
        let t = time (last_tp st) + seek_time_delta st;
            t' = (if t > mt then mt else t)
        in Continue (st\<lparr>low_tp := high_tp st,
                        high_tp := \<lparr>time = t', position = calc t'\<rparr>,
                        seek_time_delta := seek_time_delta st + seek_time_delta st,
                        calls := calls st @ [Calc t']\<rparr>))"

text \<open>
  The part of the loop body from the comment \<open>Find step\<close> to its end, entered with the
  direction \<open>sdir st\<close> already decided.
\<close>

definition find_and_add_step ::
  "extern \<Rightarrow> (real \<Rightarrow> real) \<Rightarrow> real \<Rightarrow> real \<Rightarrow> real \<Rightarrow> gen_state \<Rightarrow> iter_result option"
where
  "find_and_add_step ex calc half_step mcu_freq mt st =
     (let target = position (last_tp st) + (if sdir st \<noteq> 0 then half_step else - half_step)
      in case itersolve_find_step calc (low_tp st) (high_tp st) target (calls st) of
           None \<Rightarrow> None
         | Some (next, tr) \<Rightarrow>
             let ret = queue_append ex tr (time next * mcu_freq);
                 tr' = tr @ [QAppend (time next * mcu_freq) ret]
             in if ret \<noteq> 0 then Some (Exit (Failed ret) tr')
                else
                  let d = time next - time (last_tp st);
                      st' = st\<lparr>seek_time_delta := (if d < 1 / 1000000000 then 1 / 1000000000 else d),
                              last_tp := \<lparr>time = time next,
                                          position = target + (if sdir st \<noteq> 0 then half_step else - half_step)\<rparr>,
                              low_tp := next,
                              calls := tr'\<rparr>
                  in if time (last_tp st') \<ge> time (high_tp st')
                     then Some (seek_new_high_range calc mt st')
                     else Some (Continue st'))"

text \<open>One pass through the body of the \<open>for (;;)\<close> loop of \<open>itersolve_gen_steps\<close>.\<close>

definition gen_iter ::
  "extern \<Rightarrow> (real \<Rightarrow> real) \<Rightarrow> real \<Rightarrow> real \<Rightarrow> real \<Rightarrow> gen_state \<Rightarrow> iter_result option"
where
  "gen_iter ex calc half_step mcu_freq mt st =
     (let dist = position (high_tp st) - position (last_tp st)
      in if \<bar>dist\<bar> < half_step then Some (seek_new_high_range calc mt st)
         else
           let next_sdir = (if dist > 0 then 1 else 0 :: int)
           in if next_sdir \<noteq> sdir st
              then
                if \<bar>dist\<bar> < half_step + 1 / 1000000000
                then Some (seek_new_high_range calc mt st)
                else if time (last_tp st) \<ge> time (low_tp st)
                        \<and> time (high_tp st) > time (last_tp st)
                then
                  let t = (time (last_tp st) + time (high_tp st)) * (1 / 2)
                  in Some (Continue (st\<lparr>high_tp := \<lparr>time = t, position = calc t\<rparr>,
                                         calls := calls st @ [Calc t]\<rparr>))
                else
                  let ret = queue_append_set_next_step_dir ex (calls st) next_sdir;
                      tr = calls st @ [QSetDir next_sdir ret]
                  in if ret \<noteq> 0 then Some (Exit (Failed ret) tr)
                     else find_and_add_step ex calc half_step mcu_freq mt
                            (st\<lparr>sdir := next_sdir, calls := tr\<rparr>)
              else find_and_add_step ex calc half_step mcu_freq mt st)"

text \<open>The loop itself: \<open>None\<close> is a loop that never leaves.\<close>

partial_function (option) gen_loop ::
  "extern \<Rightarrow> (real \<Rightarrow> real) \<Rightarrow> real \<Rightarrow> real \<Rightarrow> real \<Rightarrow> gen_state
     \<Rightarrow> (loop_exit \<times> event list) option"
where
  "gen_loop ex calc half_step mcu_freq mt st =
     (case gen_iter ex calc half_step mcu_freq mt st of
        None \<Rightarrow> None
      | Some (Exit e tr) \<Rightarrow> Some (e, tr)
      | Some (Continue st') \<Rightarrow> gen_loop ex calc half_step mcu_freq mt st')"

declare gen_loop.simps [code]

text \<open>What a call leaves behind: its return value, the structure, and the calls it made.\<close>

record gen_result =
  ret :: int
  sk_out :: stepper_kinematics
  trace :: "event list"

definition gen_init :: "extern \<Rightarrow> stepper_kinematics \<Rightarrow> move \<Rightarrow> gen_state" where
  "gen_init ex sk m =
     (let lst = \<lparr>time = 0, position = commanded_pos sk\<rparr>
      in \<lparr>last_tp = lst, low_tp = lst, high_tp = lst,
          seek_time_delta = 1 / 10000,
          sdir = stepcompress_get_step_dir ex (sc sk),
          calls = [QStart (print_time m) (1 / 2)]\<rparr>)"

definition itersolve_gen_steps ::
  "extern \<Rightarrow> stepper_kinematics \<Rightarrow> move \<Rightarrow> gen_result option"
where
  "itersolve_gen_steps ex sk m =
     (let calc = calc_position ex (calc_position_cb sk) sk m;
          half_step = (1 / 2) * step_dist sk;
          mcu_freq = stepcompress_get_mcu_freq ex (sc sk)
      in case gen_loop ex calc half_step mcu_freq (move_t m) (gen_init ex sk m) of
           None \<Rightarrow> None
         | Some (Failed r, tr) \<Rightarrow> Some \<lparr>ret = r, sk_out = sk, trace = tr\<rparr>
         | Some (Finished lst, tr) \<Rightarrow>
             let sk' = sk\<lparr>commanded_pos := position lst\<rparr>
             in if post_cb sk' \<noteq> 0
                then Some \<lparr>ret = 0, sk_out = post ex (post_cb sk') sk', trace = tr @ [QFinish, Post]\<rparr>
                else Some \<lparr>ret = 0, sk_out = sk', trace = tr @ [QFinish]\<rparr>)"

text \<open>The clock values handed to \<open>queue_append\<close>, in call order.\<close>

fun appended :: "event list \<Rightarrow> real list" where
  "appended [] = []"
| "appended (QAppend c r # es) = c # appended es"
| "appended (e # es) = appended es"

subsection \<open>The same code with the arithmetic rounded\<close>

text \<open>
  The results of the arithmetic on doubles are rounded. \<open>round_even\<close> is the integer
  nearest to a real, the even one of two that are equally near.
\<close>

definition round_even :: "real \<Rightarrow> int" where
  "round_even x =
     (let n = \<lfloor>x\<rfloor>; d = x - of_int n
      in if d < 1 / 2 then n else if 1 / 2 < d then n + 1 else if even n then n else n + 1)"

text \<open>
  The binary exponent of a double of magnitude \<open>x\<close>: the largest \<open>e\<close> from -1021 to 1023
  with \<open>2 ^ e \<le> x\<close>, and -1022 below all of these, where the doubles are subnormal.
\<close>

fun binade :: "nat \<Rightarrow> real \<Rightarrow> int" where
  "binade 0 x = - 1022"
| "binade (Suc n) x =
     (if 2 powi (int (Suc n) - 1022) \<le> x then int (Suc n) - 1022 else binade n x)"

text \<open>
  The double nearest to a real, with 53 bits for the exponent found above. There is no
  infinity here and no NaN: a real of magnitude \<open>2 ^ 1024\<close> or more keeps the exponent
  1023.
\<close>

definition binary64 :: "real \<Rightarrow> real" where
  "binary64 x = (let q = 2 powi (binade 2045 \<bar>x\<bar> - 52) in of_int (round_even (x / q)) * q)"

text \<open>
  The functions above once more, with a rounding \<open>rnd\<close> applied to the result of every
  operation on doubles and to every constant of the source; comparisons, \<open>fabs\<close> and
  the unary minus are exact. With \<open>binary64\<close> for \<open>rnd\<close> this is the arithmetic of the
  C code on finite doubles, with the identity it is the exact arithmetic above.
\<close>

partial_function (option) find_step_loop_fl ::
  "(real \<Rightarrow> real) \<Rightarrow> (real \<Rightarrow> real) \<Rightarrow> real \<Rightarrow> bool \<Rightarrow> timepos \<Rightarrow> timepos \<Rightarrow> timepos
     \<Rightarrow> event list \<Rightarrow> (timepos \<times> event list) option"
where
  "find_step_loop_fl rnd calc target high_sign low high best_guess tr =
     (let guess_time = rnd (rnd (rnd (time low * position high) - rnd (time high * position low))
                            / rnd (position high - position low))
      in if \<bar>rnd (guess_time - time best_guess)\<bar> \<le> rnd (1 / 1000000000)
         then Some (best_guess, tr)
         else
           let guess = \<lparr>time = guess_time, position = calc guess_time\<rparr>;
               guess_position = rnd (position guess - target);
               guess_sign = (guess_position < 0)
           in if guess_sign = high_sign
              then find_step_loop_fl rnd calc target high_sign low
                     \<lparr>time = guess_time, position = guess_position\<rparr> guess (tr @ [Calc guess_time])
              else find_step_loop_fl rnd calc target high_sign
                     \<lparr>time = guess_time, position = guess_position\<rparr> high guess
                     (tr @ [Calc guess_time]))"

declare find_step_loop_fl.simps [code]

definition itersolve_find_step_fl ::
  "(real \<Rightarrow> real) \<Rightarrow> (real \<Rightarrow> real) \<Rightarrow> timepos \<Rightarrow> timepos \<Rightarrow> real \<Rightarrow> event list
     \<Rightarrow> (timepos \<times> event list) option"
where
  "itersolve_find_step_fl rnd calc low high target tr =
     (let best_guess = high;
          low' = low\<lparr>position := rnd (position low - target)\<rparr>;
          high' = high\<lparr>position := rnd (position high - target)\<rparr>
      in if position high' = 0 then Some (best_guess, tr)
         else
           let high_sign = (position high' < 0)
           in if high_sign = (position low' < 0)
              then Some (\<lparr>time = time low', position = target\<rparr>, tr)
              else find_step_loop_fl rnd calc target high_sign low' high' best_guess tr)"

definition seek_new_high_range_fl ::
  "(real \<Rightarrow> real) \<Rightarrow> (real \<Rightarrow> real) \<Rightarrow> real \<Rightarrow> gen_state \<Rightarrow> iter_result"
where
  "seek_new_high_range_fl rnd calc mt st =
     (if time (high_tp st) \<ge> mt then Exit (Finished (last_tp st)) (calls st)
      else
        let t = rnd (time (last_tp st) + seek_time_delta st);
            t' = (if t > mt then mt else t)
        in Continue (st\<lparr>low_tp := high_tp st,
                        high_tp := \<lparr>time = t', position = calc t'\<rparr>,
                        seek_time_delta := rnd (seek_time_delta st + seek_time_delta st),
                        calls := calls st @ [Calc t']\<rparr>))"

definition find_and_add_step_fl ::
  "(real \<Rightarrow> real) \<Rightarrow> extern \<Rightarrow> (real \<Rightarrow> real) \<Rightarrow> real \<Rightarrow> real \<Rightarrow> real \<Rightarrow> gen_state
     \<Rightarrow> iter_result option"
where
  "find_and_add_step_fl rnd ex calc half_step mcu_freq mt st =
     (let target = rnd (position (last_tp st) + (if sdir st \<noteq> 0 then half_step else - half_step))
      in case itersolve_find_step_fl rnd calc (low_tp st) (high_tp st) target (calls st) of
           None \<Rightarrow> None
         | Some (next, tr) \<Rightarrow>
             let ret = queue_append ex tr (rnd (time next * mcu_freq));
                 tr' = tr @ [QAppend (rnd (time next * mcu_freq)) ret]
             in if ret \<noteq> 0 then Some (Exit (Failed ret) tr')
                else
                  let d = rnd (time next - time (last_tp st));
                      st' = st\<lparr>seek_time_delta :=
                                  (if d < rnd (1 / 1000000000) then rnd (1 / 1000000000) else d),
                                last_tp := \<lparr>time = time next,
                                            position = rnd (target + (if sdir st \<noteq> 0 then half_step
                                                                     else - half_step))\<rparr>,
                                low_tp := next, calls := tr'\<rparr>
                  in if time (last_tp st') \<ge> time (high_tp st')
                     then Some (seek_new_high_range_fl rnd calc mt st')
                     else Some (Continue st'))"

definition gen_iter_fl ::
  "(real \<Rightarrow> real) \<Rightarrow> extern \<Rightarrow> (real \<Rightarrow> real) \<Rightarrow> real \<Rightarrow> real \<Rightarrow> real \<Rightarrow> gen_state
     \<Rightarrow> iter_result option"
where
  "gen_iter_fl rnd ex calc half_step mcu_freq mt st =
     (let dist = rnd (position (high_tp st) - position (last_tp st))
      in if \<bar>dist\<bar> < half_step then Some (seek_new_high_range_fl rnd calc mt st)
         else
           let next_sdir = (if dist > 0 then 1 else 0 :: int)
           in if next_sdir \<noteq> sdir st
              then
                if \<bar>dist\<bar> < rnd (half_step + rnd (1 / 1000000000))
                then Some (seek_new_high_range_fl rnd calc mt st)
                else if time (last_tp st) \<ge> time (low_tp st) \<and> time (high_tp st) > time (last_tp st)
                then
                  let t = rnd (rnd (time (last_tp st) + time (high_tp st)) * rnd (1 / 2))
                  in Some (Continue (st\<lparr>high_tp := \<lparr>time = t, position = calc t\<rparr>,
                                          calls := calls st @ [Calc t]\<rparr>))
                else
                  let ret = queue_append_set_next_step_dir ex (calls st) next_sdir;
                      tr = calls st @ [QSetDir next_sdir ret]
                  in if ret \<noteq> 0 then Some (Exit (Failed ret) tr)
                     else find_and_add_step_fl rnd ex calc half_step mcu_freq mt
                            (st\<lparr>sdir := next_sdir, calls := tr\<rparr>)
              else find_and_add_step_fl rnd ex calc half_step mcu_freq mt st)"

partial_function (option) gen_loop_fl ::
  "(real \<Rightarrow> real) \<Rightarrow> extern \<Rightarrow> (real \<Rightarrow> real) \<Rightarrow> real \<Rightarrow> real \<Rightarrow> real \<Rightarrow> gen_state
     \<Rightarrow> (loop_exit \<times> event list) option"
where
  "gen_loop_fl rnd ex calc half_step mcu_freq mt st =
     (case gen_iter_fl rnd ex calc half_step mcu_freq mt st of
        None \<Rightarrow> None
      | Some (Exit e tr) \<Rightarrow> Some (e, tr)
      | Some (Continue st') \<Rightarrow> gen_loop_fl rnd ex calc half_step mcu_freq mt st')"

declare gen_loop_fl.simps [code]

definition gen_init_fl :: "(real \<Rightarrow> real) \<Rightarrow> extern \<Rightarrow> stepper_kinematics \<Rightarrow> move \<Rightarrow> gen_state" where
  "gen_init_fl rnd ex sk m =
     (let lst = \<lparr>time = 0, position = commanded_pos sk\<rparr>
      in \<lparr>last_tp = lst, low_tp = lst, high_tp = lst, seek_time_delta = rnd (1 / 10000),
          sdir = stepcompress_get_step_dir ex (sc sk),
          calls = [QStart (print_time m) (rnd (1 / 2))]\<rparr>)"

definition itersolve_gen_steps_fl ::
  "(real \<Rightarrow> real) \<Rightarrow> extern \<Rightarrow> stepper_kinematics \<Rightarrow> move \<Rightarrow> gen_result option"
where
  "itersolve_gen_steps_fl rnd ex sk m =
     (let calc = calc_position ex (calc_position_cb sk) sk m;
          half_step = rnd (rnd (1 / 2) * step_dist sk);
          mcu_freq = stepcompress_get_mcu_freq ex (sc sk)
      in case gen_loop_fl rnd ex calc half_step mcu_freq (move_t m) (gen_init_fl rnd ex sk m) of
           None \<Rightarrow> None
         | Some (Failed r, tr) \<Rightarrow> Some \<lparr>ret = r, sk_out = sk, trace = tr\<rparr>
         | Some (Finished lst, tr) \<Rightarrow>
             let sk' = sk\<lparr>commanded_pos := position lst\<rparr>
             in if post_cb sk' \<noteq> 0
                then Some \<lparr>ret = 0, sk_out = post ex (post_cb sk') sk', trace = tr @ [QFinish, Post]\<rparr>
                else Some \<lparr>ret = 0, sk_out = sk', trace = tr @ [QFinish]\<rparr>)"

subsection \<open>Reading the list of calls\<close>

text \<open>The directions handed to \<open>queue_append_set_next_step_dir\<close>, in call order.\<close>

fun direction_changes :: "event list \<Rightarrow> int list" where
  "direction_changes [] = []"
| "direction_changes (QSetDir d r # es) = d # direction_changes es"
| "direction_changes (e # es) = direction_changes es"

text \<open>
  A call is quiet when it is neither a queue call that returned a failure status, nor
  the end of the session, nor the post callback.
\<close>

fun quiet :: "event \<Rightarrow> bool" where
  "quiet (QAppend c s) = (s = 0)"
| "quiet (QSetDir d s) = (s = 0)"
| "quiet QFinish = False"
| "quiet Post = False"
| "quiet e = True"

text \<open>A list of calls that ends in a queue call with status \<open>s\<close>, the first that is not quiet.\<close>

definition failed_by :: "int \<Rightarrow> event list \<Rightarrow> bool" where
  "failed_by s tr \<longleftrightarrow> s \<noteq> 0 \<and>
     (\<exists>tr0 ev. tr = tr0 @ [ev] \<and> list_all quiet tr0
        \<and> ((\<exists>c. ev = QAppend c s) \<or> (\<exists>d. ev = QSetDir d s)))"

fun calls_of :: "iter_result \<Rightarrow> event list" where
  "calls_of (Continue st) = calls st"
| "calls_of (Exit e tr) = tr"

fun settled :: "iter_result \<Rightarrow> bool" where
  "settled (Continue st) = list_all quiet (calls st)"
| "settled (Exit (Finished l) tr) = list_all quiet tr"
| "settled (Exit (Failed s) tr) = failed_by s tr"

subsection \<open>The first passes of a call\<close>

text \<open>
  The loop run for at most \<open>n\<close> passes: where the call stands after them, or how it has
  left the loop before.
\<close>

fun gen_run ::
  "nat \<Rightarrow> extern \<Rightarrow> (real \<Rightarrow> real) \<Rightarrow> real \<Rightarrow> real \<Rightarrow> real \<Rightarrow> gen_state \<Rightarrow> iter_result option"
where
  "gen_run 0 ex calc half_step mcu_freq mt st = Some (Continue st)"
| "gen_run (Suc n) ex calc half_step mcu_freq mt st =
     (case gen_iter ex calc half_step mcu_freq mt st of
        Some (Continue st') \<Rightarrow> gen_run n ex calc half_step mcu_freq mt st'
      | r \<Rightarrow> r)"

definition gen_steps_passes ::
  "nat \<Rightarrow> extern \<Rightarrow> stepper_kinematics \<Rightarrow> move \<Rightarrow> iter_result option"
where
  "gen_steps_passes n ex sk m =
     gen_run n ex (calc_position ex (calc_position_cb sk) sk m) ((1 / 2) * step_dist sk)
       (stepcompress_get_mcu_freq ex (sc sk)) (move_t m) (gen_init ex sk m)"



subsection \<open>Trajectories that stay within half a step\<close>

text \<open>
  The position callback stays strictly within half a step distance of \<open>commanded_pos\<close> at
  every time of the move.
\<close>

definition stays_within_half_step :: "extern \<Rightarrow> stepper_kinematics \<Rightarrow> move \<Rightarrow> bool" where
  "stays_within_half_step ex sk m \<longleftrightarrow>
     (\<forall>t. 0 \<le> t \<and> t \<le> move_t m \<longrightarrow>
        \<bar>calc_position ex (calc_position_cb sk) sk m t - commanded_pos sk\<bar> < (1 / 2) * step_dist sk)"

text \<open>
  What the proofs below need of a rounding: 0 is not changed, a rounded value is not
  changed by rounding it again, and twice a rounded value is a rounded value.
\<close>

definition exact_doubling :: "(real \<Rightarrow> real) \<Rightarrow> bool" where
  "exact_doubling rnd \<longleftrightarrow>
     rnd 0 = 0 \<and> (\<forall>x. rnd (rnd x) = rnd x) \<and> (\<forall>x. rnd (2 * rnd x) = 2 * rnd x)"

text \<open>
  The displacement from \<open>commanded_pos\<close> as line 70 computes it stays strictly below the
  half step as line 62 computes it, at every time of the move.
\<close>

definition stays_within_half_step_fl ::
  "(real \<Rightarrow> real) \<Rightarrow> extern \<Rightarrow> stepper_kinematics \<Rightarrow> move \<Rightarrow> bool"
where
  "stays_within_half_step_fl rnd ex sk m \<longleftrightarrow>
     (\<forall>t. 0 \<le> t \<and> t \<le> move_t m \<longrightarrow>
        \<bar>rnd (calc_position ex (calc_position_cb sk) sk m t - commanded_pos sk)\<bar>
          < rnd (rnd (1 / 2) * step_dist sk))"

subsection \<open>The scenario of ten steps per second\<close>

text \<open>
  The state at the top of the loop after \<open>k\<close> steps of the move of one second with
  position \<open>10 * t\<close> and step distance 1/10, from the second step on, and the clocks of
  the first \<open>k\<close> steps.
\<close>

definition scenario_state :: "nat \<Rightarrow> event list \<Rightarrow> gen_state" where
  "scenario_state k tr =
     \<lparr>last_tp = \<lparr>time = real k / 100 - 1 / 200, position = real k / 10\<rparr>,
      low_tp = \<lparr>time = real k / 100 - 1 / 200, position = real k / 10 - 1 / 20\<rparr>,
      high_tp = \<lparr>time = min (real k / 100 + 1 / 200) 1,
                 position = 10 * min (real k / 100 + 1 / 200) 1\<rparr>,
      seek_time_delta = 1 / 50, sdir = 1, calls = tr\<rparr>"

definition scenario_ticks :: "real \<Rightarrow> nat \<Rightarrow> real list" where
  "scenario_ticks f k = map (\<lambda>i. (1 / 200 + real i / 100) * f) [0..<k]"

subsection \<open>A bracket that is halved again and again\<close>


subsection \<open>Brackets of the false position search\<close>

text \<open>
  A position is apart from the target when it is on it, or away from it by at least \<open>lo\<close>
  and at most \<open>hi\<close>. (The difference of two doubles is such a value: it is 0, or between
  the smallest and the largest positive double in magnitude.)
\<close>

definition apart :: "real \<Rightarrow> real \<Rightarrow> real \<Rightarrow> bool" where
  "apart lo hi x \<longleftrightarrow> x = 0 \<or> (lo \<le> \<bar>x\<bar> \<and> \<bar>x\<bar> \<le> hi)"

text \<open>
  What holds of \<open>low\<close>, \<open>high\<close> and \<open>best_guess\<close> at the top of every pass of the loop of
  \<open>itersolve_find_step\<close>, with the target already subtracted: the two ends are on
  opposite sides, \<open>best_guess\<close> is at one of them, and at an end that is on the target.
\<close>

definition bracketing :: "real \<Rightarrow> real \<Rightarrow> bool \<Rightarrow> timepos \<Rightarrow> timepos \<Rightarrow> timepos \<Rightarrow> bool" where
  "bracketing lo hi hs low high bg \<longleftrightarrow>
     (position high < 0) = hs \<and> (position low < 0) \<noteq> hs
     \<and> apart lo hi (position low) \<and> apart lo hi (position high)
     \<and> (time bg = time low \<or> time bg = time high)
     \<and> (position low = 0 \<longrightarrow> time bg = time low)
     \<and> (position high = 0 \<longrightarrow> time bg = time high)"

subsection \<open>A false position search that circles\<close>

text \<open>
  Three neighbouring doubles a little above \<open>2 ^ 24\<close>, where doubles are \<open>2 ^ -28\<close> apart:
  \<open>7378697629483821 / 2 ^ 28\<close>, which is \<open>2 ^ 38\<close> times the double nearest to 0.0001, the
  next and the one after. The states of the loop of the step finder in which \<open>high\<close> is at
  the third of them, \<open>low\<close> is at the first or the second, and \<open>best_guess\<close> is at one of
  the ends.
\<close>

definition circling :: "timepos \<Rightarrow> timepos \<Rightarrow> timepos \<Rightarrow> bool" where
  "circling low high bg \<longleftrightarrow>
     high = \<lparr>time = 7378697629483823 / 268435456, position = 3\<rparr>
     \<and> (low = \<lparr>time = 7378697629483821 / 268435456, position = - (1 / 2)\<rparr>
          \<and> (time bg = 7378697629483823 / 268435456 \<or> time bg = 7378697629483821 / 268435456)
        \<or> low = \<lparr>time = 3689348814741911 / 134217728, position = - 3\<rparr>
          \<and> time bg = 3689348814741911 / 134217728)"



subsection \<open>Inputs for the concrete runs\<close>

text \<open>A constant-velocity trajectory: position \<open>p0 + v * t\<close> at time \<open>t\<close>.\<close>

definition linear_position :: "real \<Rightarrow> real \<Rightarrow> real \<Rightarrow> real" where
  "linear_position p0 v t = p0 + v * t"


text \<open>A trajectory at \<open>a\<close> up to the time \<open>t1\<close>, at \<open>b\<close> between \<open>t1\<close> and \<open>t2\<close> and at \<open>c\<close> from \<open>t2\<close> on.\<close>

definition plateaus :: "real \<Rightarrow> real \<Rightarrow> real \<Rightarrow> real \<Rightarrow> real \<Rightarrow> real \<Rightarrow> real" where
  "plateaus t1 t2 a b c t = (if t \<le> t1 then a else if t < t2 then b else c)"

text \<open>
  A move that rests at 0 for \<open>7378697629483821 / 2 ^ 28\<close> seconds and is at 7/2 at its end,
  two doubles later, with -5/2 in between.
\<close>

definition late_move :: "real \<Rightarrow> real" where
  "late_move = plateaus (7378697629483821 / 268435456) (7378697629483823 / 268435456) 0 (- (5 / 2)) (7 / 2)"

text \<open>A trajectory that jumps between \<open>a\<close> and \<open>- a\<close> every millisecond.\<close>

definition square_wave :: "real \<Rightarrow> real \<Rightarrow> real" where
  "square_wave a t = (if even \<lfloor>t * 1000\<rfloor> then a else - a)"

text \<open>A queue with room for \<open>n\<close> steps: a call fails with status -1 once it is full.\<close>

definition small_queue :: "nat \<Rightarrow> event list \<Rightarrow> int" where
  "small_queue n tr = (if length (appended tr) < n then 0 else - 1)"

text \<open>A post callback that writes \<open>commanded_pos\<close> and nothing else.\<close>

definition shift_hook :: "stepper_kinematics \<Rightarrow> stepper_kinematics" where
  "shift_hook s = s\<lparr>commanded_pos := commanded_pos s - 1\<rparr>"

text \<open>
  The outside of a call: the trajectory \<open>calc\<close> behind every position callback, the post
  callback above, a queue of frequency \<open>f\<close> whose direction is \<open>d\<close> and which has room for
  \<open>n\<close> steps.
\<close>

definition test_extern :: "(real \<Rightarrow> real) \<Rightarrow> real \<Rightarrow> int \<Rightarrow> nat \<Rightarrow> extern" where
  "test_extern calc f d n =
     \<lparr>calc_position = (\<lambda>p sk m. calc),
      post = (\<lambda>p. shift_hook),
      stepcompress_get_mcu_freq = (\<lambda>q. f),
      stepcompress_get_step_dir = (\<lambda>q. d),
      queue_append = (\<lambda>tr c. small_queue n tr),
      queue_append_set_next_step_dir = (\<lambda>tr s. small_queue n tr)\<rparr>"

text \<open>
  A stepper with step distance \<open>sd\<close> at position \<open>cp\<close>; \<open>hook\<close> is its \<open>post_cb\<close> pointer, 0
  for none.
\<close>

definition test_sk :: "real \<Rightarrow> real \<Rightarrow> pointer \<Rightarrow> stepper_kinematics" where
  "test_sk sd cp hook =
     \<lparr>step_dist = sd, commanded_pos = cp, sc = 1, calc_position_cb = 1, post_cb = hook\<rparr>"

text \<open>The equations that evaluate a call on these inputs.\<close>

lemmas run_defs =
  itersolve_gen_steps_def gen_init_def gen_loop.simps gen_iter_def seek_new_high_range_def
  find_and_add_step_def itersolve_find_step_def find_step_loop.simps Let_def
  test_extern_def test_sk_def linear_position_def small_queue_def shift_hook_def

lemmas fl_defs =
  itersolve_gen_steps_fl_def gen_init_fl_def gen_loop_fl.simps gen_iter_fl_def
  seek_new_high_range_fl_def find_and_add_step_fl_def itersolve_find_step_fl_def
  find_step_loop_fl.simps Let_def test_extern_def test_sk_def linear_position_def small_queue_def

section \<open>The calls a run makes\<close>

lemma find_step_loop_calls_aux:
  assumes "find_step_loop calc target hs low high bg tr = Some y"
  shows "\<exists>cs. snd y = tr @ map Calc cs"
proof (rule find_step_loop.raw_induct
    [where P = "\<lambda>calc target hs low high bg tr y. \<exists>cs. snd y = tr @ map Calc cs", OF _ assms])
  fix rec :: "(real \<Rightarrow> real) \<Rightarrow> real \<Rightarrow> bool \<Rightarrow> timepos \<Rightarrow> timepos \<Rightarrow> timepos \<Rightarrow> event list
     \<Rightarrow> (timepos \<times> event list) option"
  fix calc :: "real \<Rightarrow> real" and target :: real and hs :: bool
    and low high bg :: timepos and tr :: "event list" and y :: "timepos \<times> event list"
  assume IH: "\<And>calc target hs low high bg tr y.
     rec calc target hs low high bg tr = Some y \<Longrightarrow> \<exists>cs. snd y = tr @ map Calc cs"
  let ?g = "(time low * position high - time high * position low) / (position high - position low)"
  assume body: "(let guess_time = ?g
      in if \<bar>guess_time - time bg\<bar> \<le> 1 / 1000000000
         then Some (bg, tr)
         else
           let guess = \<lparr>time = guess_time, position = calc guess_time\<rparr>;
               guess_position = position guess - target;
               guess_sign = (guess_position < 0)
           in if guess_sign = hs
              then rec calc target hs low
                     \<lparr>time = guess_time, position = guess_position\<rparr> guess
                     (tr @ [Calc guess_time])
              else rec calc target hs
                     \<lparr>time = guess_time, position = guess_position\<rparr> high guess
                     (tr @ [Calc guess_time])) = Some y"
  show "\<exists>cs. snd y = tr @ map Calc cs"
  proof (cases "\<bar>?g - time bg\<bar> \<le> 1 / 1000000000")
    case True
    with body have "snd y = tr @ map Calc []" by (auto simp: Let_def)
    then show ?thesis by blast
  next
    case False
    with body have "\<exists>l h b. rec calc target hs l h b (tr @ [Calc ?g]) = Some y"
      by (auto simp: Let_def split: if_splits)
    then obtain cs where "snd y = (tr @ [Calc ?g]) @ map Calc cs"
      using IH by blast
    then have "snd y = tr @ map Calc (?g # cs)" by simp
    then show ?thesis by blast
  qed
qed

lemma find_step_loop_calls:
  "find_step_loop calc target hs low high bg tr = Some (r, tr') \<Longrightarrow> \<exists>cs. tr' = tr @ map Calc cs"
  using find_step_loop_calls_aux [of calc target hs low high bg tr "(r, tr')"] by simp

lemma itersolve_find_step_calls:
  assumes "itersolve_find_step calc low high target tr = Some (r, tr')"
  shows "\<exists>cs. tr' = tr @ map Calc cs"
proof -
  have e: "tr = tr @ map Calc []" by simp
  from assms consider "tr' = tr"
    | hs l h where "find_step_loop calc target hs l h high tr = Some (r, tr')"
    unfolding itersolve_find_step_def Let_def by (auto split: if_splits)
  then show ?thesis
  proof cases
    case 1
    with e show ?thesis by blast
  next
    case 2
    then show ?thesis by (rule find_step_loop_calls)
  qed
qed

lemma quiet_map_Calc [simp]: "list_all quiet (map Calc cs)"
  by (induction cs) auto

lemma quiet_Calc: "list_all quiet (tr @ map Calc cs) = list_all quiet tr"
  by simp

lemma appended_map_Calc [simp]: "appended (map Calc cs @ es) = appended es"
  by (induction cs) auto

lemma direction_changes_map_Calc [simp]: "direction_changes (map Calc cs @ es) = direction_changes es"
  by (induction cs) auto

lemma count_Finish_map_Calc [simp]: "count_list (map Calc cs) QFinish = 0"
  by (induction cs) auto

section \<open>Passes of the loop\<close>

lemma gen_iter_expand:
  assumes "\<bar>position (high_tp st) - position (last_tp st)\<bar> < half_step"
    and "time (high_tp st) < mt"
  shows "gen_iter ex calc half_step mcu_freq mt st =
           Some (Continue (st\<lparr>low_tp := high_tp st,
              high_tp := \<lparr>time = min (time (last_tp st) + seek_time_delta st) mt,
                          position = calc (min (time (last_tp st) + seek_time_delta st) mt)\<rparr>,
              seek_time_delta := 2 * seek_time_delta st,
              calls := calls st @ [Calc (min (time (last_tp st) + seek_time_delta st) mt)]\<rparr>))"
  using assms by (simp add: gen_iter_def seek_new_high_range_def Let_def min_def)

lemma settled_seek:
  "list_all quiet (calls st) \<Longrightarrow> settled (seek_new_high_range calc mt st)"
  by (auto simp: seek_new_high_range_def Let_def)

lemma find_and_add_step_settled:
  assumes q: "list_all quiet (calls st)"
    and r: "find_and_add_step ex calc h f mt st = Some r"
  shows "settled r"
proof -
  let ?target = "position (last_tp st) + (if sdir st \<noteq> 0 then h else - h)"
  from r obtain nx tr where fs: "itersolve_find_step calc (low_tp st) (high_tp st) ?target (calls st) = Some (nx, tr)"
    by (auto simp: find_and_add_step_def Let_def split: option.splits)
  then obtain cs where tr: "tr = calls st @ map Calc cs"
    using itersolve_find_step_calls by blast
  with q have qt: "list_all quiet tr" by (simp add: quiet_Calc)
  show ?thesis
  proof (cases "queue_append ex tr (time nx * f) = 0")
    case True
    with r fs qt show ?thesis
      by (auto simp: find_and_add_step_def Let_def seek_new_high_range_def split: if_splits)
  next
    case False
    with r fs have "r = Exit (Failed (queue_append ex tr (time nx * f)))
                          (tr @ [QAppend (time nx * f) (queue_append ex tr (time nx * f))])"
      by (auto simp: find_and_add_step_def Let_def)
    with False qt show ?thesis by (auto simp: failed_by_def)
  qed
qed

lemma gen_iter_settled:
  assumes q: "list_all quiet (calls st)"
    and r: "gen_iter ex calc h f mt st = Some r"
  shows "settled r"
proof -
  let ?dist = "position (high_tp st) - position (last_tp st)"
  let ?nd = "(if ?dist > 0 then 1 else 0 :: int)"
  let ?t = "(time (last_tp st) + time (high_tp st)) * (1 / 2)"
  let ?s = "queue_append_set_next_step_dir ex (calls st) ?nd"
  have cases5: "r = seek_new_high_range calc mt st
      \<or> r = Continue (st\<lparr>high_tp := \<lparr>time = ?t, position = calc ?t\<rparr>, calls := calls st @ [Calc ?t]\<rparr>)
      \<or> (?s \<noteq> 0 \<and> r = Exit (Failed ?s) (calls st @ [QSetDir ?nd ?s]))
      \<or> (?s = 0 \<and> find_and_add_step ex calc h f mt (st\<lparr>sdir := ?nd, calls := calls st @ [QSetDir ?nd ?s]\<rparr>) = Some r)
      \<or> find_and_add_step ex calc h f mt st = Some r"
  proof (cases "\<bar>?dist\<bar> < h")
    case True
    with r show ?thesis by (simp add: gen_iter_def)
  next
    case far: False
    show ?thesis
    proof (cases "?nd = sdir st")
      case True
      with far r show ?thesis by (simp add: gen_iter_def Let_def)
    next
      case turn: False
      show ?thesis
      proof (cases "\<bar>?dist\<bar> < h + 1 / 1000000000")
        case True
        with far turn r show ?thesis by (simp add: gen_iter_def Let_def)
      next
        case past: False
        show ?thesis
        proof (cases "time (last_tp st) \<ge> time (low_tp st) \<and> time (high_tp st) > time (last_tp st)")
          case True
          with far turn past r show ?thesis by (simp add: gen_iter_def Let_def)
        next
          case False
          with far turn past r show ?thesis
            by (cases "?s = 0") (simp_all add: gen_iter_def Let_def)
        qed
      qed
    qed
  qed
  then consider
      (seek) "r = seek_new_high_range calc mt st"
    | (half) "r = Continue (st\<lparr>high_tp := \<lparr>time = ?t, position = calc ?t\<rparr>, calls := calls st @ [Calc ?t]\<rparr>)"
    | (dirfail) "?s \<noteq> 0" "r = Exit (Failed ?s) (calls st @ [QSetDir ?nd ?s])"
    | (dirok) "?s = 0" "find_and_add_step ex calc h f mt (st\<lparr>sdir := ?nd, calls := calls st @ [QSetDir ?nd ?s]\<rparr>) = Some r"
    | (step) "find_and_add_step ex calc h f mt st = Some r"
    by blast
  then show ?thesis
  proof cases
    case seek
    with q show ?thesis by (simp add: settled_seek)
  next
    case half
    with q show ?thesis by simp
  next
    case dirfail
    with q show ?thesis by (auto simp: failed_by_def)
  next
    case dirok
    from q dirok(1) have "list_all quiet (calls (st\<lparr>sdir := ?nd, calls := calls st @ [QSetDir ?nd ?s]\<rparr>))"
      by simp
    from find_and_add_step_settled [OF this dirok(2)] show ?thesis .
  next
    case step
    from find_and_add_step_settled [OF q step] show ?thesis .
  qed
qed

lemma gen_run_settled:
  "list_all quiet (calls st) \<Longrightarrow> gen_run n ex calc h f mt st = Some r \<Longrightarrow> settled r"
proof (induction n arbitrary: st)
  case 0
  then show ?case by auto
next
  case (Suc n)
  from Suc.prems(2) obtain r' where r': "gen_iter ex calc h f mt st = Some r'"
    by (auto split: option.splits)
  from gen_iter_settled [OF Suc.prems(1) r'] have s: "settled r'" .
  show ?case
  proof (cases r')
    case (Continue st')
    with s r' Suc.prems(2) Suc.IH [of st'] show ?thesis by auto
  next
    case (Exit e tr)
    with s r' Suc.prems(2) show ?thesis by auto
  qed
qed

lemma gen_run_exit:
  "gen_run n ex calc h f mt st = Some (Exit e tr) \<Longrightarrow> gen_loop ex calc h f mt st = Some (e, tr)"
proof (induction n arbitrary: st)
  case 0
  then show ?case by simp
next
  case (Suc n)
  then show ?case
    by (subst gen_loop.simps) (auto split: option.splits iter_result.splits)
qed

lemma failure_is_exit:
  assumes "settled r" and "ev \<in> set (calls_of r)" and "\<not> quiet ev"
  shows "\<exists>s tr0. r = Exit (Failed s) (tr0 @ [ev]) \<and> list_all quiet tr0 \<and> s \<noteq> 0
           \<and> ((\<exists>c. ev = QAppend c s) \<or> (\<exists>d. ev = QSetDir d s))"
proof (cases r)
  case (Continue st)
  with assms show ?thesis by (auto simp: list_all_iff)
next
  case (Exit e tr)
  show ?thesis
  proof (cases e)
    case (Finished l)
    with Exit assms show ?thesis by (auto simp: list_all_iff)
  next
    case (Failed s)
    with Exit assms show ?thesis by (auto simp: failed_by_def list_all_iff)
  qed
qed

lemma gen_loop_at_end:
  assumes "\<bar>position (high_tp st) - position (last_tp st)\<bar> < h" and "mt \<le> time (high_tp st)"
  shows "gen_loop ex calc h f mt st = Some (Finished (last_tp st), calls st)"
  using assms by (subst gen_loop.simps) (simp add: gen_iter_def seek_new_high_range_def)

lemma pow2_reaches: "0 < (s::real) \<Longrightarrow> \<exists>n. mt \<le> s * 2 ^ n"
proof -
  assume s: "0 < s"
  obtain n where "mt / s < 2 ^ n" using real_arch_pow [of 2 "mt / s"] by auto
  with s have "mt < s * 2 ^ n" by (simp add: field_simps)
  then show ?thesis by (intro exI [of _ n]) simp
qed

section \<open>Rounding to a double\<close>

lemma binade_low:
  "x < 2 powi (- 1021) \<Longrightarrow> binade n x = - 1022"
proof (induction n)
  case 0
  show ?case by simp
next
  case (Suc n)
  have "(2::real) powi (- 1021) \<le> 2 powi (int (Suc n) - 1022)"
    by (rule power_int_increasing) simp_all
  with Suc show ?case by simp
qed

lemma binade_eq:
  assumes "2 powi e \<le> x" and "x < 2 powi (e + 1)" and "- 1022 \<le> e" and "e \<le> int n - 1022"
  shows "binade n x = e"
  using assms
proof (induction n)
  case 0
  then show ?case by simp
next
  case (Suc n)
  show ?case
  proof (cases "e = int (Suc n) - 1022")
    case True
    with Suc.prems show ?thesis by simp
  next
    case False
    with Suc.prems have le: "e \<le> int n - 1022" by simp
    then have "(2::real) powi (e + 1) \<le> 2 powi (int (Suc n) - 1022)"
      by (intro power_int_increasing) simp_all
    with Suc.prems have "\<not> 2 powi (int (Suc n) - 1022) \<le> x" by simp
    with Suc.IH [OF Suc.prems(1,2,3) le] show ?thesis by simp
  qed
qed

lemma binary64_eval:
  assumes "2 powi e \<le> \<bar>x\<bar>" and "\<bar>x\<bar> < 2 powi (e + 1)" and "- 1022 \<le> e" and "e \<le> 1023"
  shows "binary64 x = of_int (round_even (x / 2 powi (e - 52))) * 2 powi (e - 52)"
  using binade_eq [OF assms(1,2,3), of 2045] assms(4) by (simp add: binary64_def Let_def)

lemma binary64_0: "binary64 0 = 0"
  by (simp add: binary64_def round_even_def)

lemma binade_range: "- 1022 \<le> binade n x \<and> binade n x \<le> int n - 1022"
  by (induction n) auto

lemma binade_below:
  "- 1022 < binade n x \<Longrightarrow> 2 powi (binade n x) \<le> x"
  by (induction n) (auto split: if_splits)

lemma binade_above:
  "x < 2 powi (int n - 1021) \<Longrightarrow> x < 2 powi (binade n x + 1)"
proof (induction n)
  case 0
  then show ?case by simp
next
  case (Suc n)
  show ?case
  proof (cases "2 powi (int (Suc n) - 1022) \<le> x")
    case True
    with Suc.prems show ?thesis by (simp add: algebra_simps)
  next
    case False
    then have "x < 2 powi (int n - 1021)" by (simp add: algebra_simps)
    with Suc.IH False show ?thesis by simp
  qed
qed

lemma binade_top:
  "2 powi (int n - 1021) \<le> x \<Longrightarrow> binade n x = int n - 1022"
proof (cases n)
  case 0
  then show ?thesis by simp
next
  case (Suc k)
  assume "2 powi (int n - 1021) \<le> x"
  moreover have "(2::real) powi (int (Suc k) - 1022) \<le> 2 powi (int n - 1021)"
    unfolding Suc by (rule power_int_increasing) simp_all
  ultimately show ?thesis using Suc by simp
qed

lemma round_even_of_int: "round_even (of_int k) = k"
  by (simp add: round_even_def)

lemma round_even_le: "y \<le> of_int b \<Longrightarrow> round_even y \<le> b"
proof -
  assume y: "y \<le> of_int b"
  then have f: "\<lfloor>y\<rfloor> \<le> b" by (simp add: floor_le_iff)
  show ?thesis
  proof (cases "y = of_int \<lfloor>y\<rfloor>")
    case True
    then have "round_even y = \<lfloor>y\<rfloor>" by (simp add: round_even_def)
    with f show ?thesis by simp
  next
    case False
    with y have "\<lfloor>y\<rfloor> \<noteq> b" by (metis floor_of_int of_int_floor_le order_antisym)
    with f have "\<lfloor>y\<rfloor> + 1 \<le> b" by simp
    moreover have "round_even y \<le> \<lfloor>y\<rfloor> + 1" by (simp add: round_even_def Let_def)
    ultimately show ?thesis by simp
  qed
qed

lemma round_even_ge: "of_int a \<le> y \<Longrightarrow> a \<le> round_even y"
proof -
  assume "of_int a \<le> y"
  then have "a \<le> \<lfloor>y\<rfloor>" by (simp add: le_floor_iff)
  moreover have "\<lfloor>y\<rfloor> \<le> round_even y" by (simp add: round_even_def Let_def)
  ultimately show ?thesis by simp
qed

lemma binary64_unfold:
  "binary64 x = of_int (round_even (x / 2 powi (binade 2045 \<bar>x\<bar> - 52))) * 2 powi (binade 2045 \<bar>x\<bar> - 52)"
  by (simp add: binary64_def Let_def)

lemma grid_scale:
  fixes b e :: int
  assumes "b \<le> e"
  shows "of_int k * 2 powi (e - 52) / 2 powi (b - 52) = (of_int (k * 2 ^ nat (e - b)) :: real)"
proof -
  have "(2::real) powi (e - 52) = 2 powi (e - b) * 2 powi (b - 52)"
    by (simp add: power_int_add [symmetric])
  moreover from assms have "(2::real) powi (e - b) = 2 ^ nat (e - b)"
    by (simp add: power_int_def)
  ultimately have "(2::real) powi (e - 52) = 2 ^ nat (e - b) * 2 powi (b - 52)" by simp
  then show ?thesis by simp
qed

lemma grid_fix:
  assumes y: "y = of_int k * 2 powi (e - 52)" and b: "binade 2045 \<bar>y\<bar> \<le> e"
  shows "binary64 y = y"
proof -
  let ?q = "2 powi (binade 2045 \<bar>y\<bar> - 52) :: real"
  let ?n = "k * 2 ^ nat (e - binade 2045 \<bar>y\<bar>)"
  have q: "0 < ?q" by simp
  have "of_int k * 2 powi (e - 52) / ?q = of_int ?n" using b by (rule grid_scale)
  then have d: "y / ?q = of_int ?n" unfolding y [symmetric] .
  then have "round_even (y / ?q) = ?n" by (simp only: round_even_of_int)
  then have "binary64 y = of_int ?n * ?q" by (simp only: binary64_unfold)
  also have "\<dots> = y / ?q * ?q" by (simp only: d)
  also have "\<dots> = y" using q by simp
  finally show ?thesis .
qed

lemma binade_not_top:
  assumes "binade 2045 x < 1023"
  shows "x < 2 powi (binade 2045 x + 1)"
proof -
  have "x < 2 powi (int 2045 - 1021)"
  proof (rule ccontr)
    assume "\<not> x < 2 powi (int 2045 - 1021)"
    then have "binade 2045 x = int 2045 - 1022" by (intro binade_top) simp
    with assms show False by simp
  qed
  then show ?thesis by (rule binade_above)
qed

lemma binade_double: "binade 2045 (2 * x) \<le> binade 2045 x + 1"
proof (cases "binade 2045 x < 1023")
  case False
  with binade_range [of 2045 "2 * x"] show ?thesis by simp
next
  case True
  from binade_not_top [OF this] have x: "2 * x < 2 powi (binade 2045 x + 2)"
    by (simp add: power_int_add)
  show ?thesis
  proof (rule ccontr)
    assume "\<not> binade 2045 (2 * x) \<le> binade 2045 x + 1"
    then have big: "binade 2045 x + 2 \<le> binade 2045 (2 * x)" by simp
    with binade_range [of 2045 x] have "- 1022 < binade 2045 (2 * x)" by simp
    from binade_below [OF this] have "2 powi (binade 2045 (2 * x)) \<le> 2 * x" .
    moreover from big have "(2::real) powi (binade 2045 x + 2) \<le> 2 powi (binade 2045 (2 * x))"
      by (intro power_int_increasing) simp_all
    ultimately show False using x by simp
  qed
qed

lemma powi_shift: "(2::real) powi (m + int n) = 2 ^ n * 2 powi m"
  by (simp add: power_int_add mult.commute)

lemma binary64_idem: "binary64 (binary64 x) = binary64 x"
proof -
  let ?b = "binade 2045 \<bar>x\<bar>"
  let ?q = "2 powi (?b - 52) :: real"
  let ?n = "round_even (x / ?q)"
  let ?z = "binary64 x"
  have q: "0 < ?q" by simp
  have z: "?z = of_int ?n * 2 powi (?b - 52)" by (rule binary64_unfold)
  show ?thesis
  proof (cases "binade 2045 \<bar>?z\<bar> \<le> ?b")
    case True
    with z show ?thesis by (rule grid_fix)
  next
    case False
    then have up: "?b + 1 \<le> binade 2045 \<bar>?z\<bar>" by simp
    with binade_range [of 2045 "\<bar>?z\<bar>"] have "?b < 1023" by simp
    from binade_not_top [OF this] have "\<bar>x\<bar> < 2 powi (?b + 1)" .
    also have "(2::real) powi (?b + 1) = 2 ^ 53 * ?q"
      using powi_shift [of "?b - 52" 53] by (simp add: add.commute)
    finally have a: "\<bar>x\<bar> / ?q < 2 ^ 53" using q by (simp add: field_simps)
    have "x / ?q \<le> \<bar>x\<bar> / ?q" using q by (intro divide_right_mono) simp_all
    moreover have "(- \<bar>x\<bar>) / ?q \<le> x / ?q" using q by (intro divide_right_mono) simp_all
    ultimately have "x / ?q \<le> of_int (2 ^ 53)" "of_int (- (2 ^ 53)) \<le> x / ?q"
      using a by simp_all
    then have "?n \<le> 2 ^ 53" "- (2 ^ 53) \<le> ?n"
      by (auto intro: round_even_le round_even_ge)
    then have "\<bar>?n\<bar> \<le> 2 ^ 53" by (simp add: abs_le_iff)
    then have "real_of_int \<bar>?n\<bar> \<le> real_of_int (2 ^ 53)" by (simp only: of_int_le_iff)
    then have "\<bar>real_of_int ?n\<bar> \<le> 2 ^ 53" by simp
    then have "\<bar>real_of_int ?n\<bar> * ?q \<le> 2 ^ 53 * ?q" using q by (intro mult_right_mono) simp_all
    then have le: "\<bar>?z\<bar> \<le> 2 powi (?b + 1)"
      unfolding z abs_mult \<open>(2::real) powi (?b + 1) = 2 ^ 53 * ?q\<close> using q by simp
    from up binade_range [of 2045 "\<bar>x\<bar>"] have "- 1022 < binade 2045 \<bar>?z\<bar>" by simp
    from binade_below [OF this] have ge: "2 powi (binade 2045 \<bar>?z\<bar>) \<le> \<bar>?z\<bar>" .
    from up have "(2::real) powi (?b + 1) \<le> 2 powi (binade 2045 \<bar>?z\<bar>)"
      by (intro power_int_increasing) simp_all
    with ge le have eq: "\<bar>?z\<bar> = 2 powi (?b + 1)" "2 powi (binade 2045 \<bar>?z\<bar>) = (2::real) powi (?b + 1)"
      by simp_all
    have bz: "binade 2045 \<bar>?z\<bar> \<le> ?b + 1"
    proof (rule ccontr)
      assume "\<not> binade 2045 \<bar>?z\<bar> \<le> ?b + 1"
      then have "(2::real) powi (?b + 1) < 2 powi (binade 2045 \<bar>?z\<bar>)"
        by (intro power_int_strict_increasing) simp_all
      with eq(2) show False by simp
    qed
    have p: "(2::real) powi (?b + 1) = of_int (2 ^ 52) * 2 powi (?b + 1 - 52)"
      using powi_shift [of "?b + 1 - 52" 52] by (simp add: add.commute)
    from eq(1) have "?z = of_int (2 ^ 52) * 2 powi (?b + 1 - 52)
        \<or> ?z = of_int (- (2 ^ 52)) * 2 powi (?b + 1 - 52)"
      unfolding p by (simp add: abs_if split: if_splits)
    then obtain k :: int where "?z = of_int k * 2 powi (?b + 1 - 52)" by blast
    then show ?thesis using bz by (rule grid_fix)
  qed
qed

lemma binary64_double: "binary64 (2 * binary64 x) = 2 * binary64 x"
proof -
  let ?y = "binary64 x"
  let ?b = "binade 2045 \<bar>?y\<bar>"
  let ?k = "round_even (?y / 2 powi (?b - 52))"
  have "binary64 ?y = of_int ?k * 2 powi (?b - 52)" by (rule binary64_unfold)
  then have y: "?y = of_int ?k * 2 powi (?b - 52)" by (simp only: binary64_idem)
  have "2 * ?y = of_int ?k * (2 * 2 powi (?b - 52))" by (subst y) simp
  also have "2 * (2::real) powi (?b - 52) = 2 powi (?b + 1 - 52)"
    using powi_shift [of "?b - 52" 1] by (simp add: add.commute)
  finally have "2 * ?y = of_int ?k * 2 powi (?b + 1 - 52)" .
  moreover have "binade 2045 \<bar>2 * ?y\<bar> \<le> ?b + 1"
    using binade_double [of "\<bar>?y\<bar>"] by (simp add: abs_mult)
  ultimately show ?thesis by (rule grid_fix)
qed

lemma binary64_exact_doubling: "exact_doubling binary64"
  by (simp add: exact_doubling_def binary64_0 binary64_idem binary64_double)

subsection \<open>Some doubles\<close>

lemma b64_half: "binary64 (1 / 2) = 1 / 2"
  by (subst binary64_eval [where e = "- 1"]) (simp_all add: round_even_def)

lemma b64_tenk: "binary64 (1 / 10000) = 7378697629483821 / 73786976294838206464"
  by (subst binary64_eval [where e = "- 14"]) (simp_all add: round_even_def)

lemma b64_tenk_again: "binary64 (7378697629483821 / 73786976294838206464) = 7378697629483821 / 73786976294838206464"
  by (subst binary64_eval [where e = "- 14"]) (simp_all add: round_even_def)

lemma b64_tenk_twice: "binary64 (7378697629483821 / 36893488147419103232) = 7378697629483821 / 36893488147419103232"
  by (subst binary64_eval [where e = "- 13"]) (simp_all add: round_even_def)

lemma b64_edge_dist: "binary64 (36028797018963967 / 72057594037927936) = 1 / 2"
  by (subst binary64_eval [where e = "- 2"]) (simp_all add: round_even_def)

lemma b64_edge_target: "binary64 (36028797018963965 / 72057594037927936) = 9007199254740991 / 18014398509481984"
  by (subst binary64_eval [where e = "- 2"]) (simp_all add: round_even_def)

lemma b64_one: "binary64 1 = 1"
  by (subst binary64_eval [where e = "0"]) (simp_all add: round_even_def)

lemma b64_mt: "binary64 (1 / 16384) = 1 / 16384"
  by (subst binary64_eval [where e = "- 14"]) (simp_all add: round_even_def)

lemma b64_nano: "binary64 (1 / 1000000000) = 4835703278458517 / 4835703278458516698824704"
  by (subst binary64_eval [where e = "- 30"]) (simp_all add: round_even_def)

lemma b64_edge_last: "binary64 (18014398509481983 / 18014398509481984) = 1"
  by (subst binary64_eval [where e = "- 1"]) (simp_all add: round_even_def)


lemma b64_quarter: "binary64 (1 / 4) = 1 / 4"
  by (subst binary64_eval [where e = "- 2"]) (simp_all add: round_even_def)

lemma b64_minus_quarter: "binary64 (- (1 / 4)) = - (1 / 4)"
  by (subst binary64_eval [where e = "- 2"]) (simp_all add: round_even_def)

lemma b64_minus_one: "binary64 (- 1) = - 1"
  by (subst binary64_eval [where e = "0"]) (simp_all add: round_even_def)

lemma b64_edge_dist_down: "binary64 (- (36028797018963967 / 72057594037927936)) = - (1 / 2)"
  by (subst binary64_eval [where e = "- 2"]) (simp_all add: round_even_def)

lemma b64_edge_target_down:
  "binary64 (- (36028797018963965 / 72057594037927936)) = - (9007199254740991 / 18014398509481984)"
  by (subst binary64_eval [where e = "- 2"]) (simp_all add: round_even_def)

lemma b64_edge_last_down: "binary64 (- (18014398509481983 / 18014398509481984)) = - 1"
  by (subst binary64_eval [where e = "- 1"]) (simp_all add: round_even_def)

lemmas b64_values = b64_half b64_tenk b64_tenk_again b64_tenk_twice b64_edge_dist b64_edge_target
  b64_one b64_mt b64_nano b64_edge_last binary64_0 b64_quarter b64_minus_quarter b64_minus_one
  b64_edge_dist_down b64_edge_target_down b64_edge_last_down

section \<open>The exact arithmetic is the rounded one without rounding\<close>

lemma find_step_loop_fl_exact_1:
  assumes run: "find_step_loop_fl rnd calc target hs low high bg tr = Some y"
  shows "rnd = (\<lambda>x. x) \<longrightarrow> find_step_loop calc target hs low high bg tr = Some y"
proof (rule find_step_loop_fl.raw_induct
    [where P = "\<lambda>rnd calc target hs low high bg tr y.
        rnd = (\<lambda>x. x) \<longrightarrow> find_step_loop calc target hs low high bg tr = Some y", OF _ run])
  fix rec :: "(real \<Rightarrow> real) \<Rightarrow> (real \<Rightarrow> real) \<Rightarrow> real \<Rightarrow> bool \<Rightarrow> timepos \<Rightarrow> timepos \<Rightarrow> timepos
     \<Rightarrow> event list \<Rightarrow> (timepos \<times> event list) option"
  fix rnd calc :: "real \<Rightarrow> real" and target :: real and hs :: bool
    and low high bg :: timepos and tr :: "event list" and y :: "timepos \<times> event list"
  assume IH: "\<And>rnd calc target hs low high bg tr y. rec rnd calc target hs low high bg tr = Some y \<Longrightarrow>
        rnd = (\<lambda>x. x) \<longrightarrow> find_step_loop calc target hs low high bg tr = Some y"
  assume body: "(let guess_time = rnd (rnd (rnd (time low * position high) - rnd (time high * position low))
                            / rnd (position high - position low))
      in if \<bar>rnd (guess_time - time bg)\<bar> \<le> rnd (1 / 1000000000)
         then Some (bg, tr)
         else
           let guess = \<lparr>time = guess_time, position = calc guess_time\<rparr>;
               guess_position = rnd (position guess - target);
               guess_sign = (guess_position < 0)
           in if guess_sign = hs
              then rec rnd calc target hs low
                     \<lparr>time = guess_time, position = guess_position\<rparr> guess (tr @ [Calc guess_time])
              else rec rnd calc target hs
                     \<lparr>time = guess_time, position = guess_position\<rparr> high guess
                     (tr @ [Calc guess_time])) = Some y"
  show "rnd = (\<lambda>x. x) \<longrightarrow> find_step_loop calc target hs low high bg tr = Some y"
  proof
    assume r: "rnd = (\<lambda>x. x)"
    let ?g = "(time low * position high - time high * position low) / (position high - position low)"
    show "find_step_loop calc target hs low high bg tr = Some y"
    proof (cases "\<bar>?g - time bg\<bar> \<le> 1 / 1000000000")
      case True
      with body r show ?thesis by (subst find_step_loop.simps) (simp add: Let_def)
    next
      case far: False
      show ?thesis
      proof (cases "(calc ?g - target < 0) = hs")
        case True
        with body r far have "rec rnd calc target hs low \<lparr>time = ?g, position = calc ?g - target\<rparr>
            \<lparr>time = ?g, position = calc ?g\<rparr> (tr @ [Calc ?g]) = Some y"
          by (simp add: Let_def)
        from IH [OF this] r True far show ?thesis
          by (subst find_step_loop.simps) (simp add: Let_def)
      next
        case False
        with body r far have "rec rnd calc target hs \<lparr>time = ?g, position = calc ?g - target\<rparr> high
            \<lparr>time = ?g, position = calc ?g\<rparr> (tr @ [Calc ?g]) = Some y"
          by (simp add: Let_def)
        from IH [OF this] r False far show ?thesis
          by (subst find_step_loop.simps) (simp add: Let_def)
      qed
    qed
  qed
qed

lemma find_step_loop_fl_exact_2:
  assumes run: "find_step_loop calc target hs low high bg tr = Some y"
  shows "find_step_loop_fl (\<lambda>x. x) calc target hs low high bg tr = Some y"
proof (rule find_step_loop.raw_induct
    [where P = "\<lambda>calc target hs low high bg tr y.
        find_step_loop_fl (\<lambda>x. x) calc target hs low high bg tr = Some y", OF _ run])
  fix rec :: "(real \<Rightarrow> real) \<Rightarrow> real \<Rightarrow> bool \<Rightarrow> timepos \<Rightarrow> timepos \<Rightarrow> timepos
     \<Rightarrow> event list \<Rightarrow> (timepos \<times> event list) option"
  fix calc :: "real \<Rightarrow> real" and target :: real and hs :: bool
    and low high bg :: timepos and tr :: "event list" and y :: "timepos \<times> event list"
  assume IH: "\<And>calc target hs low high bg tr y. rec calc target hs low high bg tr = Some y \<Longrightarrow>
        find_step_loop_fl (\<lambda>x. x) calc target hs low high bg tr = Some y"
  assume body: "(let guess_time = (time low * position high - time high * position low)
                            / (position high - position low)
      in if \<bar>guess_time - time bg\<bar> \<le> 1 / 1000000000
         then Some (bg, tr)
         else
           let guess = \<lparr>time = guess_time, position = calc guess_time\<rparr>;
               guess_position = position guess - target;
               guess_sign = (guess_position < 0)
           in if guess_sign = hs
              then rec calc target hs low
                     \<lparr>time = guess_time, position = guess_position\<rparr> guess (tr @ [Calc guess_time])
              else rec calc target hs
                     \<lparr>time = guess_time, position = guess_position\<rparr> high guess
                     (tr @ [Calc guess_time])) = Some y"
  let ?g = "(time low * position high - time high * position low) / (position high - position low)"
  show "find_step_loop_fl (\<lambda>x. x) calc target hs low high bg tr = Some y"
  proof (cases "\<bar>?g - time bg\<bar> \<le> 1 / 1000000000")
    case True
    with body show ?thesis by (subst find_step_loop_fl.simps) (simp add: Let_def)
  next
    case far: False
    show ?thesis
    proof (cases "(calc ?g - target < 0) = hs")
      case True
      with body far have "rec calc target hs low \<lparr>time = ?g, position = calc ?g - target\<rparr>
          \<lparr>time = ?g, position = calc ?g\<rparr> (tr @ [Calc ?g]) = Some y"
        by (simp add: Let_def)
      from IH [OF this] True far show ?thesis
        by (subst find_step_loop_fl.simps) (simp add: Let_def)
    next
      case False
      with body far have "rec calc target hs \<lparr>time = ?g, position = calc ?g - target\<rparr> high
          \<lparr>time = ?g, position = calc ?g\<rparr> (tr @ [Calc ?g]) = Some y"
        by (simp add: Let_def)
      from IH [OF this] False far show ?thesis
        by (subst find_step_loop_fl.simps) (simp add: Let_def)
    qed
  qed
qed

lemma find_step_loop_fl_exact:
  "find_step_loop_fl (\<lambda>x. x) calc target hs low high bg tr
     = find_step_loop calc target hs low high bg tr"
proof (cases "find_step_loop_fl (\<lambda>x. x) calc target hs low high bg tr")
  case (Some y)
  with find_step_loop_fl_exact_1 [OF Some] show ?thesis by simp
next
  case None
  show ?thesis
  proof (cases "find_step_loop calc target hs low high bg tr")
    case (Some y)
    from find_step_loop_fl_exact_2 [OF Some] None show ?thesis by simp
  next
    case n: None
    with None show ?thesis by simp
  qed
qed

lemma itersolve_find_step_fl_exact:
  "itersolve_find_step_fl (\<lambda>x. x) calc low high target tr = itersolve_find_step calc low high target tr"
  by (simp add: itersolve_find_step_fl_def itersolve_find_step_def find_step_loop_fl_exact Let_def)

lemma seek_new_high_range_fl_exact:
  "seek_new_high_range_fl (\<lambda>x. x) calc mt st = seek_new_high_range calc mt st"
  by (simp add: seek_new_high_range_fl_def seek_new_high_range_def Let_def)

lemma find_and_add_step_fl_exact:
  "find_and_add_step_fl (\<lambda>x. x) ex calc h f mt st = find_and_add_step ex calc h f mt st"
  by (simp add: find_and_add_step_fl_def find_and_add_step_def itersolve_find_step_fl_exact
      seek_new_high_range_fl_exact Let_def split: option.splits prod.splits)

lemma gen_iter_fl_exact:
  "gen_iter_fl (\<lambda>x. x) ex calc h f mt st = gen_iter ex calc h f mt st"
  by (simp add: gen_iter_fl_def gen_iter_def find_and_add_step_fl_exact seek_new_high_range_fl_exact
      Let_def)


lemma gen_loop_fl_exact_1:
  assumes run: "gen_loop_fl rnd ex calc h f mt st = Some y"
  shows "rnd = (\<lambda>x. x) \<longrightarrow> gen_loop ex calc h f mt st = Some y"
proof (rule gen_loop_fl.raw_induct
    [where P = "\<lambda>rnd ex calc h f mt st y. rnd = (\<lambda>x. x) \<longrightarrow> gen_loop ex calc h f mt st = Some y",
      OF _ run])
  fix rec :: "(real \<Rightarrow> real) \<Rightarrow> extern \<Rightarrow> (real \<Rightarrow> real) \<Rightarrow> real \<Rightarrow> real \<Rightarrow> real \<Rightarrow> gen_state
     \<Rightarrow> (loop_exit \<times> event list) option"
  fix rnd :: "real \<Rightarrow> real" and ex :: extern and calc :: "real \<Rightarrow> real" and h f mt :: real
    and st :: gen_state and y :: "loop_exit \<times> event list"
  assume IH: "\<And>rnd ex calc h f mt st y. rec rnd ex calc h f mt st = Some y \<Longrightarrow>
        rnd = (\<lambda>x. x) \<longrightarrow> gen_loop ex calc h f mt st = Some y"
  assume body: "(case gen_iter_fl rnd ex calc h f mt st of
        None \<Rightarrow> None
      | Some (Continue st') \<Rightarrow> rec rnd ex calc h f mt st'
      | Some (Exit e tr) \<Rightarrow> Some (e, tr)) = Some y"
  show "rnd = (\<lambda>x. x) \<longrightarrow> gen_loop ex calc h f mt st = Some y"
  proof
    assume r: "rnd = (\<lambda>x. x)"
    from body obtain res where res: "gen_iter_fl rnd ex calc h f mt st = Some res"
      by (auto split: option.splits)
    with r have it: "gen_iter ex calc h f mt st = Some res" by (simp add: gen_iter_fl_exact)
    show "gen_loop ex calc h f mt st = Some y"
    proof (cases res)
      case (Continue st')
      with body res have "rec rnd ex calc h f mt st' = Some y" by simp
      from IH [OF this] r it Continue show ?thesis by (subst gen_loop.simps) simp
    next
      case (Exit e tr)
      with body res it show ?thesis by (subst gen_loop.simps) auto
    qed
  qed
qed

lemma gen_loop_fl_exact_2:
  assumes run: "gen_loop ex calc h f mt st = Some y"
  shows "gen_loop_fl (\<lambda>x. x) ex calc h f mt st = Some y"
proof (rule gen_loop.raw_induct
    [where P = "\<lambda>ex calc h f mt st y. gen_loop_fl (\<lambda>x. x) ex calc h f mt st = Some y", OF _ run])
  fix rec :: "extern \<Rightarrow> (real \<Rightarrow> real) \<Rightarrow> real \<Rightarrow> real \<Rightarrow> real \<Rightarrow> gen_state
     \<Rightarrow> (loop_exit \<times> event list) option"
  fix ex :: extern and calc :: "real \<Rightarrow> real" and h f mt :: real and st :: gen_state
    and y :: "loop_exit \<times> event list"
  assume IH: "\<And>ex calc h f mt st y. rec ex calc h f mt st = Some y \<Longrightarrow>
        gen_loop_fl (\<lambda>x. x) ex calc h f mt st = Some y"
  assume body: "(case gen_iter ex calc h f mt st of
        None \<Rightarrow> None
      | Some (Continue st') \<Rightarrow> rec ex calc h f mt st'
      | Some (Exit e tr) \<Rightarrow> Some (e, tr)) = Some y"
  from body obtain res where res: "gen_iter ex calc h f mt st = Some res"
    by (auto split: option.splits)
  then have it: "gen_iter_fl (\<lambda>x. x) ex calc h f mt st = Some res" by (simp add: gen_iter_fl_exact)
  show "gen_loop_fl (\<lambda>x. x) ex calc h f mt st = Some y"
  proof (cases res)
    case (Continue st')
    with body res have "rec ex calc h f mt st' = Some y" by simp
    from IH [OF this] it Continue show ?thesis by (subst gen_loop_fl.simps) simp
  next
    case (Exit e tr)
    with body res it show ?thesis by (subst gen_loop_fl.simps) auto
  qed
qed

lemma gen_loop_fl_exact:
  "gen_loop_fl (\<lambda>x. x) ex calc h f mt st = gen_loop ex calc h f mt st"
proof (cases "gen_loop_fl (\<lambda>x. x) ex calc h f mt st")
  case (Some y)
  with gen_loop_fl_exact_1 [OF Some] show ?thesis by simp
next
  case None
  show ?thesis
  proof (cases "gen_loop ex calc h f mt st")
    case (Some y)
    from gen_loop_fl_exact_2 [OF Some] None show ?thesis by simp
  next
    case n: None
    with None show ?thesis by simp
  qed
qed

lemma itersolve_gen_steps_fl_exact:
  "itersolve_gen_steps_fl (\<lambda>x. x) ex sk m = itersolve_gen_steps ex sk m"
  by (simp add: itersolve_gen_steps_fl_def itersolve_gen_steps_def gen_init_fl_def gen_init_def
      gen_loop_fl_exact Let_def split: option.splits prod.splits loop_exit.splits)

section \<open>The step finder\<close>

text \<open>
  C7. When \<open>high.position\<close> is exactly the target, \<open>itersolve_find_step\<close> returns the
  high sample as it was given, time and position, and calls the position callback not
  once: the list of calls comes back unchanged.
\<close>

theorem find_step_perfect_guess:
  "position high = target \<Longrightarrow> itersolve_find_step calc low high target tr = Some (high, tr)"
  by (simp add: itersolve_find_step_def)

theorem find_step_perfect_guess_witness:
  "itersolve_find_step (linear_position 0 10) \<lparr>time = 0, position = 0\<rparr>
     \<lparr>time = 1 / 200, position = 1 / 20\<rparr> (1 / 20) [QStart 0 (1 / 2)]
   = Some (\<lparr>time = 1 / 200, position = 1 / 20\<rparr>, [QStart 0 (1 / 2)])"
  using find_step_perfect_guess [of "\<lparr>time = 1 / 200, position = 1 / 20\<rparr>" "1 / 20"
      "linear_position 0 10" "\<lparr>time = 0, position = 0\<rparr>" "[QStart 0 (1 / 2)]"]
  by simp

text \<open>
  C5. When the two samples, after the target is subtracted, have the same sign and the
  high position is not the target, \<open>itersolve_find_step\<close> returns the time of the low
  sample paired with the target (not with the low sample's position), and calls the
  position callback not once.
\<close>

theorem find_step_same_sign:
  "(position low - target < 0) = (position high - target < 0) \<Longrightarrow> position high \<noteq> target
   \<Longrightarrow> itersolve_find_step calc low high target tr
       = Some (\<lparr>time = time low, position = target\<rparr>, tr)"
  by (simp add: itersolve_find_step_def)

theorem find_step_same_sign_witness:
  "itersolve_find_step (linear_position 2 0) \<lparr>time = 1 / 1000000000, position = 2\<rparr>
     \<lparr>time = 4 / 1000000000, position = 2\<rparr> (3 / 2) []
   = Some (\<lparr>time = 1 / 1000000000, position = 3 / 2\<rparr>, [])"
  using find_step_same_sign [of "\<lparr>time = 1 / 1000000000, position = 2\<rparr>" "3 / 2"
      "\<lparr>time = 4 / 1000000000, position = 2\<rparr>" "linear_position 2 0" "[]"]
  by simp

section \<open>The step generator\<close>

subsection \<open>Bracket expansion\<close>

text \<open>
  C3, as the code has it. When the displacement from \<open>last\<close> to \<open>high\<close> is smaller in
  magnitude than half a step and \<open>high.time\<close> is before the end of the move, the pass sets
  \<open>low\<close> to the old \<open>high\<close>, sets \<open>high.time\<close> to \<open>last.time + seek_time_delta\<close> capped at the
  end of the move, doubles \<open>seek_time_delta\<close>, and samples the callback at the new
  \<open>high.time\<close>. The new \<open>high.time\<close> is measured from \<open>last.time\<close>, not from the old
  \<open>high.time\<close>.
\<close>

theorem expand_bracket:
  assumes "\<bar>position (high_tp st) - position (last_tp st)\<bar> < half_step"
    and "time (high_tp st) < mt"
  shows "gen_iter ex calc half_step mcu_freq mt st =
           Some (Continue (st\<lparr>low_tp := high_tp st,
              high_tp := \<lparr>time = min (time (last_tp st) + seek_time_delta st) mt,
                          position = calc (min (time (last_tp st) + seek_time_delta st) mt)\<rparr>,
              seek_time_delta := 2 * seek_time_delta st,
              calls := calls st @ [Calc (min (time (last_tp st) + seek_time_delta st) mt)]\<rparr>))"
  using assms by (rule gen_iter_expand)

text \<open>
  The second pass of a call on a move of one second that does not move: the first pass
  has put \<open>high.time\<close> at 100 microseconds and doubled \<open>seek_time_delta\<close> to 200.
\<close>

theorem expand_bracket_witness:
  "gen_iter (test_extern (linear_position 0 0) 1 1 5) (linear_position 0 0) (1 / 2) 1 1
     \<lparr>last_tp = \<lparr>time = 0, position = 0\<rparr>, low_tp = \<lparr>time = 0, position = 0\<rparr>,
      high_tp = \<lparr>time = 1 / 10000, position = 0\<rparr>, seek_time_delta = 1 / 5000, sdir = 1,
      calls = [QStart 0 (1 / 2), Calc (1 / 10000)]\<rparr>
   = Some (Continue
     \<lparr>last_tp = \<lparr>time = 0, position = 0\<rparr>, low_tp = \<lparr>time = 1 / 10000, position = 0\<rparr>,
      high_tp = \<lparr>time = 1 / 5000, position = 0\<rparr>, seek_time_delta = 1 / 2500, sdir = 1,
      calls = [QStart 0 (1 / 2), Calc (1 / 10000), Calc (1 / 5000)]\<rparr>)"
  using expand_bracket [of
     "\<lparr>last_tp = \<lparr>time = 0, position = 0\<rparr>, low_tp = \<lparr>time = 0, position = 0\<rparr>,
      high_tp = \<lparr>time = 1 / 10000, position = 0\<rparr>, seek_time_delta = 1 / 5000, sdir = 1,
      calls = [QStart 0 (1 / 2), Calc (1 / 10000)]\<rparr>" "1 / 2" 1
     "test_extern (linear_position 0 0) 1 1 5" "linear_position 0 0" 1]
  by (simp add: linear_position_def)

text \<open>
  C3 as stated fails there: the state is the one the first pass of that call produces,
  the displacement is zero and \<open>high.time\<close> is before the end of the move, and the new
  \<open>high.time\<close> is 200 microseconds, not the old \<open>high.time\<close> plus \<open>seek_time_delta\<close>, which
  is 300.
\<close>

theorem expand_bracket_from_high_counterexample:
  "gen_iter (test_extern (linear_position 0 0) 1 1 5) (linear_position 0 0) (1 / 2) 1 1
       (gen_init (test_extern (linear_position 0 0) 1 1 5) (test_sk 1 0 0)
          \<lparr>print_time = 0, move_t = 1\<rparr>)
     = Some (Continue
       \<lparr>last_tp = \<lparr>time = 0, position = 0\<rparr>, low_tp = \<lparr>time = 0, position = 0\<rparr>,
        high_tp = \<lparr>time = 1 / 10000, position = 0\<rparr>, seek_time_delta = 1 / 5000, sdir = 1,
        calls = [QStart 0 (1 / 2), Calc (1 / 10000)]\<rparr>)
   \<and> gen_iter (test_extern (linear_position 0 0) 1 1 5) (linear_position 0 0) (1 / 2) 1 1
       \<lparr>last_tp = \<lparr>time = 0, position = 0\<rparr>, low_tp = \<lparr>time = 0, position = 0\<rparr>,
        high_tp = \<lparr>time = 1 / 10000, position = 0\<rparr>, seek_time_delta = 1 / 5000, sdir = 1,
        calls = [QStart 0 (1 / 2), Calc (1 / 10000)]\<rparr>
     = Some (Continue
       \<lparr>last_tp = \<lparr>time = 0, position = 0\<rparr>, low_tp = \<lparr>time = 1 / 10000, position = 0\<rparr>,
        high_tp = \<lparr>time = 1 / 5000, position = 0\<rparr>, seek_time_delta = 1 / 2500, sdir = 1,
        calls = [QStart 0 (1 / 2), Calc (1 / 10000), Calc (1 / 5000)]\<rparr>)
   \<and> \<bar>(0::real) - 0\<bar> < 1 / 2 \<and> (1::real) / 10000 < 1
   \<and> (1::real) / 5000 \<noteq> min (1 / 10000 + 1 / 5000) 1"
  by (simp add: run_defs)

subsection \<open>Frame\<close>

text \<open>
  C9. A call that returns, with success or with a failure status, leaves \<open>sc\<close>,
  \<open>step_dist\<close>, \<open>calc_position_cb\<close> and \<open>post_cb\<close> as they were, provided the post
  callback does not write them. (The position callback is a function in this model and
  writes nothing.)
\<close>

theorem gen_steps_frame:
  assumes "itersolve_gen_steps ex sk m = Some r"
    and "\<forall>s. sc (post ex (post_cb sk) s) = sc s \<and> step_dist (post ex (post_cb sk) s) = step_dist s
           \<and> calc_position_cb (post ex (post_cb sk) s) = calc_position_cb s
           \<and> post_cb (post ex (post_cb sk) s) = post_cb s"
  shows "sc (sk_out r) = sc sk \<and> step_dist (sk_out r) = step_dist sk
           \<and> calc_position_cb (sk_out r) = calc_position_cb sk \<and> post_cb (sk_out r) = post_cb sk"
  using assms
  by (auto simp: itersolve_gen_steps_def Let_def split: option.splits loop_exit.splits if_splits)

text \<open>A call with a post callback installed that rewrites \<open>commanded_pos\<close>.\<close>

theorem gen_steps_frame_witness:
  "itersolve_gen_steps (test_extern (linear_position 2 0) 1 1 5) (test_sk 1 0 1)
       \<lparr>print_time = 0, move_t = 4 / 1000000000\<rparr>
     = Some \<lparr>ret = 0, sk_out = test_sk 1 1 1,
         trace = [QStart 0 (1 / 2), Calc (4 / 1000000000), Calc (1 / 1000000000),
                  QAppend (1 / 1000000000) 0, QAppend (1 / 1000000000) 0, QFinish, Post]\<rparr>
   \<and> sc (test_sk 1 1 1) = sc (test_sk 1 0 1)
   \<and> step_dist (test_sk 1 1 1) = step_dist (test_sk 1 0 1)
   \<and> calc_position_cb (test_sk 1 1 1) = calc_position_cb (test_sk 1 0 1)
   \<and> post_cb (test_sk 1 1 1) = post_cb (test_sk 1 0 1)"
proof -
  have run: "itersolve_gen_steps (test_extern (linear_position 2 0) 1 1 5) (test_sk 1 0 1)
       \<lparr>print_time = 0, move_t = 4 / 1000000000\<rparr>
     = Some \<lparr>ret = 0, sk_out = test_sk 1 1 1,
         trace = [QStart 0 (1 / 2), Calc (4 / 1000000000), Calc (1 / 1000000000),
                  QAppend (1 / 1000000000) 0, QAppend (1 / 1000000000) 0, QFinish, Post]\<rparr>"
    by (simp add: run_defs)
  have hook: "\<forall>s. sc (post (test_extern (linear_position 2 0) 1 1 5) (post_cb (test_sk 1 0 1)) s) = sc s
      \<and> step_dist (post (test_extern (linear_position 2 0) 1 1 5) (post_cb (test_sk 1 0 1)) s) = step_dist s
      \<and> calc_position_cb (post (test_extern (linear_position 2 0) 1 1 5) (post_cb (test_sk 1 0 1)) s)
          = calc_position_cb s
      \<and> post_cb (post (test_extern (linear_position 2 0) 1 1 5) (post_cb (test_sk 1 0 1)) s) = post_cb s"
    by (simp add: test_extern_def shift_hook_def)
  from gen_steps_frame [OF run hook] run show ?thesis by simp
qed

subsection \<open>Failure of a queue call\<close>

text \<open>
  C2. As soon as a call to \<open>queue_append\<close> or \<open>queue_append_set_next_step_dir\<close> has
  returned a status other than 0, after any number of passes of the loop,
  \<open>itersolve_gen_steps\<close> has returned: it returns that status, the failing call is the
  last call it made, the structure (and so \<open>commanded_pos\<close>) is as it was before the call,
  and neither \<open>queue_append_finish\<close> nor the post callback has been called.
\<close>

theorem queue_failure_returns:
  assumes run: "gen_steps_passes n ex sk m = Some r"
    and ev: "QAppend c s \<in> set (calls_of r) \<or> QSetDir d s \<in> set (calls_of r)"
    and s: "s \<noteq> 0"
  shows "itersolve_gen_steps ex sk m = Some \<lparr>ret = s, sk_out = sk, trace = calls_of r\<rparr>
         \<and> (last (calls_of r) = QAppend c s \<or> last (calls_of r) = QSetDir d s)
         \<and> QFinish \<notin> set (calls_of r) \<and> Post \<notin> set (calls_of r)"
proof -
  have "list_all quiet (calls (gen_init ex sk m))" by (simp add: gen_init_def Let_def)
  then have st: "settled r"
    using run unfolding gen_steps_passes_def by (rule gen_run_settled)
  from ev s obtain e where e: "e \<in> set (calls_of r)" "\<not> quiet e" "e = QAppend c s \<or> e = QSetDir d s"
    by auto
  from failure_is_exit [OF st e(1,2)] obtain s' tr0 where
    r: "r = Exit (Failed s') (tr0 @ [e])" and q: "list_all quiet tr0" by blast
  from r st e(3) have ss: "s' = s" by (auto simp: failed_by_def)
  from run r have "gen_loop ex (calc_position ex (calc_position_cb sk) sk m) ((1 / 2) * step_dist sk)
       (stepcompress_get_mcu_freq ex (sc sk)) (move_t m) (gen_init ex sk m) = Some (Failed s', tr0 @ [e])"
    unfolding gen_steps_passes_def by (simp add: gen_run_exit)
  then have "itersolve_gen_steps ex sk m = Some \<lparr>ret = s, sk_out = sk, trace = calls_of r\<rparr>"
    using r ss by (simp add: itersolve_gen_steps_def)
  moreover from r e(3) have "last (calls_of r) = QAppend c s \<or> last (calls_of r) = QSetDir d s"
    by auto
  moreover from r q e(3) have "QFinish \<notin> set (calls_of r) \<and> Post \<notin> set (calls_of r)"
    by (auto simp: list_all_iff)
  ultimately show ?thesis by blast
qed

text \<open>
  A constant-velocity move into a queue with room for one step: the second
  \<open>queue_append\<close>, in the eleventh pass, fails with -1.
\<close>

theorem queue_failure_returns_witness:
  "gen_steps_passes 11 (test_extern (linear_position 0 10) 1000 1 1) (test_sk (1 / 10) 0 1)
       \<lparr>print_time = 0, move_t = 1\<rparr>
     = Some (Exit (Failed (- 1))
         [QStart 0 (1 / 2), Calc (1 / 10000), Calc (1 / 5000), Calc (1 / 2500),
          Calc (1 / 1250), Calc (1 / 625), Calc (2 / 625), Calc (4 / 625),
          Calc (1 / 200), QAppend 5 0, Calc (1 / 100), Calc (3 / 200), QAppend 15 (- 1)])
   \<and> itersolve_gen_steps (test_extern (linear_position 0 10) 1000 1 1) (test_sk (1 / 10) 0 1)
       \<lparr>print_time = 0, move_t = 1\<rparr>
     = Some \<lparr>ret = - 1, sk_out = test_sk (1 / 10) 0 1, trace =
         [QStart 0 (1 / 2), Calc (1 / 10000), Calc (1 / 5000), Calc (1 / 2500),
          Calc (1 / 1250), Calc (1 / 625), Calc (2 / 625), Calc (4 / 625),
          Calc (1 / 200), QAppend 5 0, Calc (1 / 100), Calc (3 / 200), QAppend 15 (- 1)]\<rparr>"
proof -
  have run: "gen_steps_passes 11 (test_extern (linear_position 0 10) 1000 1 1) (test_sk (1 / 10) 0 1)
       \<lparr>print_time = 0, move_t = 1\<rparr>
     = Some (Exit (Failed (- 1))
         [QStart 0 (1 / 2), Calc (1 / 10000), Calc (1 / 5000), Calc (1 / 2500),
          Calc (1 / 1250), Calc (1 / 625), Calc (2 / 625), Calc (4 / 625),
          Calc (1 / 200), QAppend 5 0, Calc (1 / 100), Calc (3 / 200), QAppend 15 (- 1)])"
    by (simp add: gen_steps_passes_def eval_nat_numeral run_defs)
  from queue_failure_returns [OF run, of 15 "- 1" 0] run show ?thesis by simp
qed

subsection \<open>Moves that stay within half a step\<close>

lemma appended_only_Calc: "appended (map Calc cs) = []"
  by (induction cs) simp_all

lemma direction_changes_only_Calc: "direction_changes (map Calc cs) = []"
  by (induction cs) simp_all

lemma gen_loop_fl_at_end:
  assumes "\<bar>rnd (position (high_tp st) - position (last_tp st))\<bar> < h" and "mt \<le> time (high_tp st)"
  shows "gen_loop_fl rnd ex calc h f mt st = Some (Finished (last_tp st), calls st)"
  using assms
  by (subst gen_loop_fl.simps) (simp add: gen_iter_fl_def seek_new_high_range_fl_def)

lemma gen_loop_fl_seek:
  assumes "\<bar>rnd (position (high_tp st) - position (last_tp st))\<bar> < h" and "time (high_tp st) < mt"
    and "rnd (time (last_tp st) + seek_time_delta st) = t"
  shows "gen_loop_fl rnd ex calc h f mt st
       = gen_loop_fl rnd ex calc h f mt
           (st\<lparr>low_tp := high_tp st, high_tp := \<lparr>time = min t mt, position = calc (min t mt)\<rparr>,
               seek_time_delta := rnd (seek_time_delta st + seek_time_delta st),
               calls := calls st @ [Calc (min t mt)]\<rparr>)"
proof -
  have "(if mt < t then mt else t) = min t mt" by (simp add: min_def)
  with assms show ?thesis
    by (subst gen_loop_fl.simps) (simp add: gen_iter_fl_def seek_new_high_range_fl_def Let_def)
qed

lemma gen_loop_fl_still:
  assumes laws: "exact_doubling rnd"
    and osc: "\<forall>t. 0 \<le> t \<and> t \<le> mt \<longrightarrow> \<bar>rnd (calc t - cp)\<bar> < h"
  shows "last_tp st = \<lparr>time = 0, position = cp\<rparr> \<Longrightarrow> \<bar>rnd (position (high_tp st) - cp)\<bar> < h
     \<Longrightarrow> 0 \<le> time (high_tp st) \<Longrightarrow> 0 < seek_time_delta st
     \<Longrightarrow> rnd (seek_time_delta st) = seek_time_delta st
     \<Longrightarrow> mt \<le> seek_time_delta st * 2 ^ n
     \<Longrightarrow> \<exists>cs. gen_loop_fl rnd ex calc h f mt st
            = Some (Finished \<lparr>time = 0, position = cp\<rparr>, calls st @ map Calc cs)"
proof (induction n arbitrary: st)
  case 0
  show ?case
  proof (cases "mt \<le> time (high_tp st)")
    case True
    with 0 have "gen_loop_fl rnd ex calc h f mt st
        = Some (Finished \<lparr>time = 0, position = cp\<rparr>, calls st @ map Calc [])"
      using gen_loop_fl_at_end [of rnd st h mt ex calc f] by simp
    then show ?thesis by blast
  next
    case False
    let ?d = "seek_time_delta st"
    let ?st' = "st\<lparr>low_tp := high_tp st, high_tp := \<lparr>time = mt, position = calc mt\<rparr>,
                  seek_time_delta := rnd (?d + ?d), calls := calls st @ [Calc mt]\<rparr>"
    from False 0 have mt: "0 \<le> mt" "min ?d mt = mt" by auto
    from False 0 mt have "gen_loop_fl rnd ex calc h f mt st = gen_loop_fl rnd ex calc h f mt ?st'"
      using gen_loop_fl_seek [of rnd st h mt ?d ex calc f] by simp
    moreover from osc mt have "\<bar>rnd (calc mt - cp)\<bar> < h" by simp
    with 0 have "gen_loop_fl rnd ex calc h f mt ?st' = Some (Finished (last_tp ?st'), calls ?st')"
      by (intro gen_loop_fl_at_end) simp_all
    ultimately have "gen_loop_fl rnd ex calc h f mt st
        = Some (Finished \<lparr>time = 0, position = cp\<rparr>, calls st @ map Calc [mt])"
      using 0 by simp
    then show ?thesis by blast
  qed
next
  case (Suc n)
  show ?case
  proof (cases "mt \<le> time (high_tp st)")
    case True
    with Suc.prems have "gen_loop_fl rnd ex calc h f mt st
        = Some (Finished \<lparr>time = 0, position = cp\<rparr>, calls st @ map Calc [])"
      using gen_loop_fl_at_end [of rnd st h mt ex calc f] by simp
    then show ?thesis by blast
  next
    case False
    let ?d = "seek_time_delta st"
    let ?t = "min ?d mt"
    let ?st' = "st\<lparr>low_tp := high_tp st, high_tp := \<lparr>time = ?t, position = calc ?t\<rparr>,
                  seek_time_delta := rnd (?d + ?d), calls := calls st @ [Calc ?t]\<rparr>"
    from laws Suc.prems have dbl: "rnd (?d + ?d) = 2 * ?d"
      using spec [of "\<lambda>x. rnd (2 * rnd x) = 2 * rnd x" ?d] by (simp add: exact_doubling_def)
    from False Suc.prems have t: "0 \<le> ?t" "?t \<le> mt" by auto
    from False Suc.prems have it: "gen_loop_fl rnd ex calc h f mt st = gen_loop_fl rnd ex calc h f mt ?st'"
      using gen_loop_fl_seek [of rnd st h mt ?d ex calc f] by simp
    from osc t have "\<bar>rnd (calc ?t - cp)\<bar> < h" by blast
    moreover from dbl Suc.prems have "rnd (seek_time_delta ?st') = seek_time_delta ?st'"
      using laws by (simp add: exact_doubling_def)
    ultimately have "\<exists>cs. gen_loop_fl rnd ex calc h f mt ?st'
            = Some (Finished \<lparr>time = 0, position = cp\<rparr>, calls ?st' @ map Calc cs)"
      using Suc.prems t dbl by (intro Suc.IH) (simp_all add: mult.assoc)
    then obtain cs where "gen_loop_fl rnd ex calc h f mt ?st'
            = Some (Finished \<lparr>time = 0, position = cp\<rparr>, calls ?st' @ map Calc cs)" ..
    with it have "gen_loop_fl rnd ex calc h f mt st
        = Some (Finished \<lparr>time = 0, position = cp\<rparr>, calls st @ map Calc (?t # cs))"
      by simp
    then show ?thesis by blast
  qed
qed

lemma still_call_fl:
  assumes laws: "exact_doubling rnd"
    and seek: "0 < rnd (1 / 10000)"
    and hs: "0 < rnd (rnd (1 / 2) * step_dist sk)"
    and within: "stays_within_half_step_fl rnd ex sk m"
  shows "\<exists>cs. gen_loop_fl rnd ex (calc_position ex (calc_position_cb sk) sk m)
           (rnd (rnd (1 / 2) * step_dist sk))
           (stepcompress_get_mcu_freq ex (sc sk)) (move_t m) (gen_init_fl rnd ex sk m)
         = Some (Finished \<lparr>time = 0, position = commanded_pos sk\<rparr>,
                 QStart (print_time m) (rnd (1 / 2)) # map Calc cs)"
proof -
  from within have osc: "\<forall>t. 0 \<le> t \<and> t \<le> move_t m \<longrightarrow>
       \<bar>rnd (calc_position ex (calc_position_cb sk) sk m t - commanded_pos sk)\<bar>
         < rnd (rnd (1 / 2) * step_dist sk)"
    by (simp add: stays_within_half_step_fl_def)
  obtain n where n: "move_t m \<le> rnd (1 / 10000) * 2 ^ n"
    using pow2_reaches [OF seek, of "move_t m"] by auto
  from laws have z: "rnd 0 = 0" and i: "rnd (rnd (1 / 10000)) = rnd (1 / 10000)"
    by (simp_all add: exact_doubling_def)
  from gen_loop_fl_still [OF laws osc, of "gen_init_fl rnd ex sk m" n ex
      "stepcompress_get_mcu_freq ex (sc sk)"] seek hs n z i
  show ?thesis by (simp add: gen_init_fl_def Let_def)
qed

text \<open>
  C4, as the code has it. When the displacement from the starting \<open>commanded_pos\<close> that
  line 70 computes, the rounded difference, stays strictly below the half step that
  line 62 computes, at every time of the move, and that half step is positive, the call
  returns 0 and calls neither \<open>queue_append\<close> nor \<open>queue_append_set_next_step_dir\<close>. The
  rounding is any rounding that doubles exactly, as \<open>binary64\<close> does.
\<close>

theorem still_move_no_steps:
  assumes "exact_doubling rnd" and "0 < rnd (1 / 10000)"
    and "0 < rnd (rnd (1 / 2) * step_dist sk)"
    and "stays_within_half_step_fl rnd ex sk m"
  shows "\<exists>r. itersolve_gen_steps_fl rnd ex sk m = Some r \<and> ret r = 0
           \<and> appended (trace r) = [] \<and> direction_changes (trace r) = []"
proof -
  from still_call_fl [OF assms] obtain cs where
    "gen_loop_fl rnd ex (calc_position ex (calc_position_cb sk) sk m)
       (rnd (rnd (1 / 2) * step_dist sk))
       (stepcompress_get_mcu_freq ex (sc sk)) (move_t m) (gen_init_fl rnd ex sk m)
     = Some (Finished \<lparr>time = 0, position = commanded_pos sk\<rparr>,
             QStart (print_time m) (rnd (1 / 2)) # map Calc cs)" ..
  then show ?thesis
    by (simp add: itersolve_gen_steps_fl_def Let_def appended_only_Calc direction_changes_only_Calc)
qed

text \<open>
  A move of one second that jumps by a quarter of a step around \<open>commanded_pos\<close>, in
  \<open>binary64\<close>.
\<close>

theorem still_move_no_steps_witness:
  "exact_doubling binary64 \<and> 0 < binary64 (1 / 10000)
   \<and> 0 < binary64 (binary64 (1 / 2) * step_dist (test_sk 1 0 0))
   \<and> stays_within_half_step_fl binary64 (test_extern (square_wave (1 / 4)) 1000 1 5) (test_sk 1 0 0)
       \<lparr>print_time = 0, move_t = 1\<rparr>
   \<and> (\<exists>r. itersolve_gen_steps_fl binary64 (test_extern (square_wave (1 / 4)) 1000 1 5)
              (test_sk 1 0 0) \<lparr>print_time = 0, move_t = 1\<rparr> = Some r
          \<and> ret r = 0 \<and> appended (trace r) = [] \<and> direction_changes (trace r) = [])"
proof -
  have seek: "0 < binary64 (1 / 10000)" by (simp add: b64_tenk)
  have hs: "0 < binary64 (binary64 (1 / 2) * step_dist (test_sk 1 0 0))"
    by (simp add: test_sk_def b64_half)
  have within: "stays_within_half_step_fl binary64 (test_extern (square_wave (1 / 4)) 1000 1 5)
       (test_sk 1 0 0) \<lparr>print_time = 0, move_t = 1\<rparr>"
    by (simp add: stays_within_half_step_fl_def test_extern_def test_sk_def square_wave_def
        b64_half b64_quarter b64_minus_quarter)
  from still_move_no_steps [OF binary64_exact_doubling seek hs within]
    binary64_exact_doubling seek hs within
  show ?thesis by blast
qed

text \<open>
  C4 as stated fails, by the rounding of line 70. The step distance is 1,
  \<open>commanded_pos\<close> is \<open>- 3 / 2 ^ 56\<close> and the position is \<open>1 / 2 - 1 / 2 ^ 54\<close> throughout,
  so it stays \<open>1 / 2 - 1 / 2 ^ 56\<close> away from \<open>commanded_pos\<close>, less than half a step. The
  double nearest to that difference is \<open>1 / 2\<close>, which is not below the half step; the
  target \<open>commanded_pos + 1 / 2\<close> rounds to the position itself, and one step is appended.
\<close>

theorem half_step_edge_counterexample:
  "stays_within_half_step (test_extern (linear_position (1 / 2 - 1 / 2 ^ 54) 0) 16384 1 5)
       (test_sk 1 (- (3 / 2 ^ 56)) 0) \<lparr>print_time = 0, move_t = 1 / 16384\<rparr>
   \<and> itersolve_gen_steps_fl binary64 (test_extern (linear_position (1 / 2 - 1 / 2 ^ 54) 0) 16384 1 5)
       (test_sk 1 (- (3 / 2 ^ 56)) 0) \<lparr>print_time = 0, move_t = 1 / 16384\<rparr>
     = Some \<lparr>ret = 0, sk_out = test_sk 1 1 0,
         trace = [QStart 0 (1 / 2), Calc (1 / 16384), QAppend 1 0, QFinish]\<rparr>
   \<and> appended [QStart 0 (1 / 2), Calc (1 / 16384), QAppend 1 0, QFinish] = [1]"
  by (simp add: stays_within_half_step_def fl_defs b64_values)

text \<open>
  C10, as the code has it. On a move that stays below the half step as computed, the
  call returns 0, appends no step, ends the session exactly once and writes to
  \<open>commanded_pos\<close> the value it had. The post callback, when one is installed, is called
  after that write and receives the structure, so the structure after the call is the
  unchanged structure when no post callback is installed, and otherwise what the post
  callback makes of the unchanged structure.
\<close>

theorem still_move_rewrites_commanded_pos:
  assumes "exact_doubling rnd" and "0 < rnd (1 / 10000)"
    and "0 < rnd (rnd (1 / 2) * step_dist sk)"
    and "stays_within_half_step_fl rnd ex sk m"
  shows "\<exists>r. itersolve_gen_steps_fl rnd ex sk m = Some r \<and> ret r = 0
           \<and> appended (trace r) = [] \<and> count_list (trace r) QFinish = 1
           \<and> sk_out r = (if post_cb sk = 0 then sk else post ex (post_cb sk) sk)"
proof -
  from still_call_fl [OF assms] obtain cs where
    "gen_loop_fl rnd ex (calc_position ex (calc_position_cb sk) sk m)
       (rnd (rnd (1 / 2) * step_dist sk))
       (stepcompress_get_mcu_freq ex (sc sk)) (move_t m) (gen_init_fl rnd ex sk m)
     = Some (Finished \<lparr>time = 0, position = commanded_pos sk\<rparr>,
             QStart (print_time m) (rnd (1 / 2)) # map Calc cs)" ..
  then show ?thesis
    by (simp add: itersolve_gen_steps_fl_def Let_def appended_only_Calc)
qed

text \<open>The same move with a post callback that subtracts 1 from \<open>commanded_pos\<close>.\<close>

theorem still_move_rewrites_commanded_pos_witness:
  "exact_doubling binary64 \<and> 0 < binary64 (1 / 10000)
   \<and> 0 < binary64 (binary64 (1 / 2) * step_dist (test_sk 1 0 1))
   \<and> stays_within_half_step_fl binary64 (test_extern (square_wave (1 / 4)) 1000 1 5) (test_sk 1 0 1)
       \<lparr>print_time = 0, move_t = 1\<rparr>
   \<and> (\<exists>r. itersolve_gen_steps_fl binary64 (test_extern (square_wave (1 / 4)) 1000 1 5)
              (test_sk 1 0 1) \<lparr>print_time = 0, move_t = 1\<rparr> = Some r
          \<and> ret r = 0 \<and> appended (trace r) = [] \<and> count_list (trace r) QFinish = 1
          \<and> sk_out r = test_sk 1 (- 1) 1)"
proof -
  have seek: "0 < binary64 (1 / 10000)" by (simp add: b64_tenk)
  have hs: "0 < binary64 (binary64 (1 / 2) * step_dist (test_sk 1 0 1))"
    by (simp add: test_sk_def b64_half)
  have within: "stays_within_half_step_fl binary64 (test_extern (square_wave (1 / 4)) 1000 1 5)
       (test_sk 1 0 1) \<lparr>print_time = 0, move_t = 1\<rparr>"
    by (simp add: stays_within_half_step_fl_def test_extern_def test_sk_def square_wave_def
        b64_half b64_quarter b64_minus_quarter)
  have hook: "(if post_cb (test_sk 1 0 1) = 0 then test_sk 1 0 1
               else post (test_extern (square_wave (1 / 4)) 1000 1 5) (post_cb (test_sk 1 0 1))
                      (test_sk 1 0 1)) = test_sk 1 (- 1) 1"
    by (simp add: test_sk_def test_extern_def shift_hook_def)
  from still_move_rewrites_commanded_pos [OF binary64_exact_doubling seek hs within]
  have "\<exists>r. itersolve_gen_steps_fl binary64 (test_extern (square_wave (1 / 4)) 1000 1 5)
              (test_sk 1 0 1) \<lparr>print_time = 0, move_t = 1\<rparr> = Some r
          \<and> ret r = 0 \<and> appended (trace r) = [] \<and> count_list (trace r) QFinish = 1
          \<and> sk_out r = test_sk 1 (- 1) 1"
    unfolding hook .
  with binary64_exact_doubling seek hs within show ?thesis by blast
qed

text \<open>
  C10 as stated fails in two ways. When a post callback that writes \<open>commanded_pos\<close> is
  installed: on a move that does not move at all, \<open>commanded_pos\<close> is 0 before the call
  and -1 after it. And by the rounding of line 70: with \<open>commanded_pos\<close> at \<open>3 / 2 ^ 56\<close>
  and the position at \<open>- (1 / 2 - 1 / 2 ^ 54)\<close> throughout, less than half a step away,
  one step in the reverse direction is appended and \<open>commanded_pos\<close> is -1 after the call.
\<close>

theorem still_move_commanded_pos_counterexample:
  "stays_within_half_step (test_extern (linear_position 0 0) 16384 1 5) (test_sk 1 0 1)
       \<lparr>print_time = 0, move_t = 1 / 16384\<rparr>
   \<and> itersolve_gen_steps_fl binary64 (test_extern (linear_position 0 0) 16384 1 5) (test_sk 1 0 1)
       \<lparr>print_time = 0, move_t = 1 / 16384\<rparr>
     = Some \<lparr>ret = 0, sk_out = test_sk 1 (- 1) 1,
             trace = [QStart 0 (1 / 2), Calc (1 / 16384), QFinish, Post]\<rparr>
   \<and> commanded_pos (test_sk 1 (- 1) 1) \<noteq> commanded_pos (test_sk 1 0 1)
   \<and> stays_within_half_step (test_extern (linear_position (- (1 / 2 - 1 / 2 ^ 54)) 0) 16384 0 5)
       (test_sk 1 (3 / 2 ^ 56) 0) \<lparr>print_time = 0, move_t = 1 / 16384\<rparr>
   \<and> itersolve_gen_steps_fl binary64
       (test_extern (linear_position (- (1 / 2 - 1 / 2 ^ 54)) 0) 16384 0 5)
       (test_sk 1 (3 / 2 ^ 56) 0) \<lparr>print_time = 0, move_t = 1 / 16384\<rparr>
     = Some \<lparr>ret = 0, sk_out = test_sk 1 (- 1) 0,
         trace = [QStart 0 (1 / 2), Calc (1 / 16384), QAppend 1 0, QFinish]\<rparr>"
  by (simp add: stays_within_half_step_def fl_defs b64_values shift_hook_def
      b64_edge_dist_down b64_edge_target_down b64_edge_last_down b64_minus_one)

section \<open>The scenario of the specification\<close>

lemma appended_append: "appended (a @ b) = appended a @ appended b"
  by (induction a rule: appended.induct) auto

lemma direction_changes_append: "direction_changes (a @ b) = direction_changes a @ direction_changes b"
  by (induction a rule: direction_changes.induct) auto

lemma gen_run_continue:
  "gen_run n ex calc h f mt st = Some (Continue st') \<Longrightarrow>
   gen_loop ex calc h f mt st = gen_loop ex calc h f mt st'"
proof (induction n arbitrary: st)
  case 0
  then show ?case by simp
next
  case (Suc n)
  then show ?case
    by (subst gen_loop.simps) (auto split: option.splits iter_result.splits)
qed

lemma find_step_at_target:
  "position high = target \<Longrightarrow> itersolve_find_step calc low high target tr = Some (high, tr)"
  by (simp add: itersolve_find_step_def)

lemma scenario_pass:
  assumes "k < 100" and "length (appended tr) < n"
  shows "gen_iter (test_extern (linear_position 0 10) f 1 n) (linear_position 0 10) (1 / 20) f 1
           (scenario_state k tr)
         = Some (Continue (scenario_state (Suc k)
             (tr @ [QAppend ((1 / 200 + real k / 100) * f) 0,
                    Calc (min (real (Suc k) / 100 + 1 / 200) 1)])))"
proof -
  from assms have k: "real k \<le> 99" by simp
  then have m: "min (real k / 100 + 1 / 200) 1 = real k / 100 + 1 / 200" by simp
  show ?thesis
    using k assms(2)
    by (simp add: gen_iter_def find_and_add_step_def seek_new_high_range_def scenario_state_def m
        find_step_at_target
        test_extern_def small_queue_def linear_position_def Let_def add.commute)
      (auto simp: min_def field_simps)
qed

lemma scenario_end:
  "gen_loop ex (linear_position 0 10) (1 / 20) f 1 (scenario_state 100 tr)
     = Some (Finished \<lparr>time = 199 / 200, position = 10\<rparr>, tr)"
  using gen_loop_at_end [of "scenario_state 100 tr" "1 / 20" 1 ex "linear_position 0 10" f]
  by (simp add: scenario_state_def)

lemma scenario_loop:
  "k + j = 100 \<Longrightarrow> appended tr = scenario_ticks f k \<Longrightarrow> direction_changes tr = []
   \<Longrightarrow> \<exists>tr'. gen_loop (test_extern (linear_position 0 10) f 1 1000) (linear_position 0 10) (1 / 20) f 1
              (scenario_state k tr)
            = Some (Finished \<lparr>time = 199 / 200, position = 10\<rparr>, tr')
          \<and> appended tr' = scenario_ticks f 100 \<and> direction_changes tr' = []"
proof (induction j arbitrary: k tr)
  case 0
  then show ?case by (simp add: scenario_end)
next
  case (Suc j)
  let ?tr = "tr @ [QAppend ((1 / 200 + real k / 100) * f) 0, Calc (min (real (Suc k) / 100 + 1 / 200) 1)]"
  from Suc.prems have k: "k < 100" and len: "length (appended tr) < 1000"
    by (simp_all add: scenario_ticks_def)
  from Suc.prems have a: "appended ?tr = scenario_ticks f (Suc k)"
    by (simp add: appended_append scenario_ticks_def)
  from Suc.prems have d: "direction_changes ?tr = []"
    by (simp add: direction_changes_append)
  from Suc.prems have "Suc k + j = 100" by simp
  from Suc.IH [OF this a d] obtain tr' where
    "gen_loop (test_extern (linear_position 0 10) f 1 1000) (linear_position 0 10) (1 / 20) f 1
              (scenario_state (Suc k) ?tr)
            = Some (Finished \<lparr>time = 199 / 200, position = 10\<rparr>, tr')"
    and "appended tr' = scenario_ticks f 100" and "direction_changes tr' = []" by blast
  with scenario_pass [OF k len, of f] show ?case
    by (subst gen_loop.simps) simp
qed

lemma scenario_prefix:
  "gen_run 11 (test_extern (linear_position 0 10) f 1 1000) (linear_position 0 10) (1 / 20) f 1
     (gen_init (test_extern (linear_position 0 10) f 1 1000) (test_sk (1 / 10) 0 0)
        \<lparr>print_time = pt, move_t = 1\<rparr>)
   = Some (Continue (scenario_state 2
       [QStart pt (1 / 2), Calc (1 / 10000), Calc (1 / 5000), Calc (1 / 2500),
        Calc (1 / 1250), Calc (1 / 625), Calc (2 / 625), Calc (4 / 625),
        Calc (1 / 200), QAppend (1 / 200 * f) 0, Calc (1 / 100), Calc (3 / 200),
        QAppend (3 / 200 * f) 0, Calc (1 / 40)]))"
  by (simp add: eval_nat_numeral run_defs scenario_state_def)

text \<open>
  C6. The move of one second with position \<open>10 * t\<close>, step distance 1/10, \<open>commanded_pos\<close>
  0 and the queue's direction forward: the call returns 0, appends exactly the 100
  clocks of the times 0.005, 0.015, ..., 0.995 (exactly, in the exact arithmetic of this
  model), changes direction not once, and leaves \<open>commanded_pos\<close> at 10. \<open>f\<close> is the
  frequency of the queue and \<open>pt\<close> the start time of the move.
\<close>

theorem constant_velocity_scenario:
  "\<exists>tr. itersolve_gen_steps (test_extern (linear_position 0 10) f 1 1000) (test_sk (1 / 10) 0 0)
            \<lparr>print_time = pt, move_t = 1\<rparr>
          = Some \<lparr>ret = 0, sk_out = test_sk (1 / 10) 10 0, trace = tr\<rparr>
        \<and> appended tr = map (\<lambda>i. (1 / 200 + real i / 100) * f) [0..<100]
        \<and> direction_changes tr = []"
proof -
  let ?tr2 = "[QStart pt (1 / 2), Calc (1 / 10000), Calc (1 / 5000), Calc (1 / 2500),
        Calc (1 / 1250), Calc (1 / 625), Calc (2 / 625), Calc (4 / 625),
        Calc (1 / 200), QAppend (1 / 200 * f) 0, Calc (1 / 100), Calc (3 / 200),
        QAppend (3 / 200 * f) 0, Calc (1 / 40)]"
  have a: "appended ?tr2 = scenario_ticks f 2"
    by (simp add: scenario_ticks_def eval_nat_numeral)
  have d: "direction_changes ?tr2 = []" by simp
  have "(2::nat) + 98 = 100" by simp
  from scenario_loop [OF this a d] obtain tr' where
    l: "gen_loop (test_extern (linear_position 0 10) f 1 1000) (linear_position 0 10) (1 / 20) f 1
              (scenario_state 2 ?tr2)
            = Some (Finished \<lparr>time = 199 / 200, position = 10\<rparr>, tr')"
    and t: "appended tr' = scenario_ticks f 100" "direction_changes tr' = []" by blast
  from gen_run_continue [OF scenario_prefix [of f pt]] l
  have "gen_loop (test_extern (linear_position 0 10) f 1 1000) (linear_position 0 10) (1 / 20) f 1
     (gen_init (test_extern (linear_position 0 10) f 1 1000) (test_sk (1 / 10) 0 0)
        \<lparr>print_time = pt, move_t = 1\<rparr>) = Some (Finished \<lparr>time = 199 / 200, position = 10\<rparr>, tr')"
    by simp
  then have "itersolve_gen_steps (test_extern (linear_position 0 10) f 1 1000) (test_sk (1 / 10) 0 0)
            \<lparr>print_time = pt, move_t = 1\<rparr>
          = Some \<lparr>ret = 0, sk_out = test_sk (1 / 10) 10 0, trace = tr' @ [QFinish]\<rparr>"
    by (simp add: itersolve_gen_steps_def test_extern_def test_sk_def)
  with t show ?thesis
    by (simp add: appended_append direction_changes_append scenario_ticks_def)
qed

section \<open>Order of the appended clocks\<close>


section \<open>Leaving the loop\<close>













subsection \<open>A bracket that is halved for ever\<close>




subsection \<open>A false position search that never ends\<close>

text \<open>
  The move \<open>late_move\<close> in \<open>binary64\<close>, with step distance 1 and \<open>commanded_pos\<close> 0. The
  search range is doubled 39 times while nothing moves, then the end of the move is
  sampled, and the step finder is called with \<open>low\<close> two doubles before \<open>high\<close>. Its guess
  is the double between them; from there the guess is \<open>low.time\<close> again, by the rounding
  of the products in line 37; and so on. Neighbouring doubles are \<open>2 ^ -28\<close> apart here,
  more than a nanosecond, so the test of line 39 never holds.
\<close>

lemma b64_A_lh: "binary64 (22136092888451463 / 268435456) = 2767011611056433 / 33554432"
  by (subst binary64_eval [where e = "26"]) (simp_all add: round_even_def)

lemma b64_A_hl: "binary64 (- (7378697629483823 / 536870912)) = - (7378697629483823 / 536870912)"
  by (subst binary64_eval [where e = "23"]) (simp_all add: round_even_def)

lemma b64_A_num: "binary64 (51650883406386751 / 536870912) = 807045053224793 / 8388608"
  by (subst binary64_eval [where e = "26"]) (simp_all add: round_even_def)

lemma b64_A_den: "binary64 (7 / 2) = 7 / 2"
  by (subst binary64_eval [where e = "1"]) (simp_all add: round_even_def)

lemma b64_A_guess: "binary64 (807045053224793 / 29360128) = 3689348814741911 / 134217728"
  by (subst binary64_eval [where e = "24"]) (simp_all add: round_even_def)

lemma b64_A_from_high: "binary64 (- (1 / 268435456)) = - (1 / 268435456)"
  by (subst binary64_eval [where e = "- 28"]) (simp_all add: round_even_def)

lemma b64_A_from_low: "binary64 (1 / 268435456) = 1 / 268435456"
  by (subst binary64_eval [where e = "- 28"]) (simp_all add: round_even_def)

lemma b64_A_pos: "binary64 (- 3) = - 3"
  by (subst binary64_eval [where e = "1"]) (simp_all add: round_even_def)

lemma b64_B_lh: "binary64 (11068046444225733 / 134217728) = 2767011611056433 / 33554432"
  by (subst binary64_eval [where e = "26"]) (simp_all add: round_even_def)

lemma b64_B_hl: "binary64 (- (22136092888451469 / 268435456)) = - (5534023222112867 / 67108864)"
  by (subst binary64_eval [where e = "26"]) (simp_all add: round_even_def)

lemma b64_B_num: "binary64 (11068046444225733 / 67108864) = 2767011611056433 / 16777216"
  by (subst binary64_eval [where e = "27"]) (simp_all add: round_even_def)

lemma b64_B_den: "binary64 6 = 6"
  by (subst binary64_eval [where e = "2"]) (simp_all add: round_even_def)

lemma b64_B_guess: "binary64 (2767011611056433 / 100663296) = 7378697629483821 / 268435456"
  by (subst binary64_eval [where e = "24"]) (simp_all add: round_even_def)

lemma b64_B_pos: "binary64 (- (1 / 2)) = - (1 / 2)"
  by (subst binary64_eval [where e = "- 1"]) (simp_all add: round_even_def)

lemma b64_armed_high: "binary64 3 = 3"
  by (subst binary64_eval [where e = "1"]) (simp_all add: round_even_def)


lemmas b64_circle = b64_A_lh b64_A_hl b64_A_num b64_A_den b64_A_guess b64_A_from_high
  b64_A_from_low b64_A_pos b64_B_lh b64_B_hl b64_B_num b64_B_den b64_B_guess b64_B_pos
  b64_armed_high b64_nano b64_half binary64_0

lemma circling_pass:
  assumes "circling low high bg"
  shows "\<exists>low' bg' tr'.
           find_step_loop_fl binary64 late_move (1 / 2) False low high bg tr
             = find_step_loop_fl binary64 late_move (1 / 2) False low' high bg' tr'
           \<and> circling low' high bg'"
proof -
  let ?p0 = "7378697629483821 / 268435456 :: real"
  let ?p1 = "3689348814741911 / 134217728 :: real"
  let ?p2 = "7378697629483823 / 268435456 :: real"
  from assms have high: "high = \<lparr>time = ?p2, position = 3\<rparr>" by (simp add: circling_def)
  from assms consider
      (a) "low = \<lparr>time = ?p0, position = - (1 / 2)\<rparr>" "time bg = ?p2"
    | (b) "low = \<lparr>time = ?p0, position = - (1 / 2)\<rparr>" "time bg = ?p0"
    | (c) "low = \<lparr>time = ?p1, position = - 3\<rparr>" "time bg = ?p1"
    by (auto simp: circling_def)
  then show ?thesis
  proof cases
    case a
    have "find_step_loop_fl binary64 late_move (1 / 2) False low high bg tr
        = find_step_loop_fl binary64 late_move (1 / 2) False \<lparr>time = ?p1, position = - 3\<rparr> high
            \<lparr>time = ?p1, position = - (5 / 2)\<rparr> (tr @ [Calc ?p1])"
      unfolding high a(1)
      by (subst find_step_loop_fl.simps)
        (simp add: a(2) Let_def b64_circle late_move_def plateaus_def)
    moreover have "circling \<lparr>time = ?p1, position = - 3\<rparr> high \<lparr>time = ?p1, position = - (5 / 2)\<rparr>"
      by (simp add: circling_def high)
    ultimately show ?thesis by blast
  next
    case b
    have "find_step_loop_fl binary64 late_move (1 / 2) False low high bg tr
        = find_step_loop_fl binary64 late_move (1 / 2) False \<lparr>time = ?p1, position = - 3\<rparr> high
            \<lparr>time = ?p1, position = - (5 / 2)\<rparr> (tr @ [Calc ?p1])"
      unfolding high b(1)
      by (subst find_step_loop_fl.simps)
        (simp add: b(2) Let_def b64_circle late_move_def plateaus_def)
    moreover have "circling \<lparr>time = ?p1, position = - 3\<rparr> high \<lparr>time = ?p1, position = - (5 / 2)\<rparr>"
      by (simp add: circling_def high)
    ultimately show ?thesis by blast
  next
    case c
    have "find_step_loop_fl binary64 late_move (1 / 2) False low high bg tr
        = find_step_loop_fl binary64 late_move (1 / 2) False \<lparr>time = ?p0, position = - (1 / 2)\<rparr> high
            \<lparr>time = ?p0, position = 0\<rparr> (tr @ [Calc ?p0])"
      unfolding high c(1)
      by (subst find_step_loop_fl.simps)
        (simp add: c(2) Let_def b64_circle late_move_def plateaus_def)
    moreover have "circling \<lparr>time = ?p0, position = - (1 / 2)\<rparr> high \<lparr>time = ?p0, position = 0\<rparr>"
      by (simp add: circling_def high)
    ultimately show ?thesis by blast
  qed
qed











subsection \<open>The false position search in exact arithmetic\<close>

text \<open>
  Without rounding the loop of the step finder does end whenever the positions, where
  they are not on the target, are away from it by at least \<open>lo > 0\<close> and at most \<open>hi\<close>:
  the bracket then shrinks by the factor \<open>hi / (hi + lo)\<close> or more in every pass. The
  endless search above is an effect of the rounding.
\<close>

lemma false_position_split:
  fixes l h L H :: real
  assumes "H - L \<noteq> 0"
  shows "(l * H - h * L) / (H - L) - l = (h - l) * (- L / (H - L))"
    and "h - (l * H - h * L) / (H - L) = (h - l) * (H / (H - L))"
  using assms by (simp_all add: field_simps)

lemma false_position_weights:
  fixes L H :: real
  assumes "(L < 0) \<noteq> (H < 0)" and "L \<noteq> 0" and "H \<noteq> 0"
  shows "- L / (H - L) = \<bar>L\<bar> / (\<bar>L\<bar> + \<bar>H\<bar>)" and "H / (H - L) = \<bar>H\<bar> / (\<bar>L\<bar> + \<bar>H\<bar>)"
    and "H - L \<noteq> 0"
proof -
  from assms consider "L < 0" "0 < H" | "0 < L" "H < 0" by fastforce
  then have "- L / (H - L) = \<bar>L\<bar> / (\<bar>L\<bar> + \<bar>H\<bar>) \<and> H / (H - L) = \<bar>H\<bar> / (\<bar>L\<bar> + \<bar>H\<bar>) \<and> H - L \<noteq> 0"
  proof cases
    case 1
    then show ?thesis by simp
  next
    case 2
    then have "- L / (H - L) = L / (L - H)" "H / (H - L) = (- H) / (L - H)"
      by (simp_all add: field_simps)
    with 2 show ?thesis by simp
  qed
  then show "- L / (H - L) = \<bar>L\<bar> / (\<bar>L\<bar> + \<bar>H\<bar>)" and "H / (H - L) = \<bar>H\<bar> / (\<bar>L\<bar> + \<bar>H\<bar>)"
    and "H - L \<noteq> 0" by simp_all
qed

lemma weight_bound:
  fixes a b lo hi :: real
  assumes "0 < lo" and "lo \<le> a" and "a \<le> hi" and "lo \<le> b" and "b \<le> hi"
  shows "a / (a + b) \<le> hi / (hi + lo)" and "0 \<le> a / (a + b)"
proof -
  have "a * lo \<le> hi * b" using assms by (simp add: mult_mono)
  then have "a * (hi + lo) \<le> hi * (a + b)" by (simp add: algebra_simps)
  moreover have "0 < a + b" "0 < hi + lo" using assms by simp_all
  ultimately show "a / (a + b) \<le> hi / (hi + lo)" by (simp add: field_simps)
  show "0 \<le> a / (a + b)" using assms by simp
qed


lemma find_step_loop_pass:
  assumes lo: "0 < lo" "lo \<le> hi"
    and orc: "\<forall>t. apart lo hi (calc t - target)"
    and br: "bracketing lo hi hs low high bg"
  shows "(\<exists>y. find_step_loop calc target hs low high bg tr = Some y)
       \<or> (\<exists>low' high' bg' tr'.
            find_step_loop calc target hs low high bg tr
              = find_step_loop calc target hs low' high' bg' tr'
            \<and> bracketing lo hi hs low' high' bg'
            \<and> \<bar>time high' - time low'\<bar> \<le> hi / (hi + lo) * \<bar>time high - time low\<bar>
            \<and> 1 / 1000000000 < \<bar>time high - time low\<bar>)"
proof -
  let ?l = "time low" and ?h = "time high" and ?L = "position low" and ?H = "position high"
  let ?g = "(?l * ?H - ?h * ?L) / (?H - ?L)"
  let ?W = "\<bar>?h - ?l\<bar>"
  from br have sg: "(?H < 0) = hs" "(?L < 0) \<noteq> hs" by (simp_all add: bracketing_def)
  show ?thesis
  proof (cases "\<bar>?g - time bg\<bar> \<le> 1 / 1000000000")
    case True
    then have "find_step_loop calc target hs low high bg tr = Some (bg, tr)"
      by (subst find_step_loop.simps) (simp add: Let_def)
    then show ?thesis by blast
  next
    case False
    have nz: "?L \<noteq> 0 \<and> ?H \<noteq> 0"
    proof (rule ccontr)
      assume "\<not> (?L \<noteq> 0 \<and> ?H \<noteq> 0)"
      then consider "?L = 0" | "?H = 0" by blast
      then have "?g = time bg"
      proof cases
        case 1
        with sg have "?H \<noteq> 0" by auto
        with 1 br show ?thesis by (simp add: bracketing_def)
      next
        case 2
        with sg have "?L \<noteq> 0" by auto
        with 2 br show ?thesis by (simp add: bracketing_def)
      qed
      with False show False by simp
    qed
    with sg have opp: "(?L < 0) \<noteq> (?H < 0)" by auto
    from nz br have bl: "lo \<le> \<bar>?L\<bar>" "\<bar>?L\<bar> \<le> hi" and bh: "lo \<le> \<bar>?H\<bar>" "\<bar>?H\<bar> \<le> hi"
      by (simp_all add: bracketing_def apart_def)
    from false_position_weights [OF opp] nz
    have w: "- ?L / (?H - ?L) = \<bar>?L\<bar> / (\<bar>?L\<bar> + \<bar>?H\<bar>)" "?H / (?H - ?L) = \<bar>?H\<bar> / (\<bar>?L\<bar> + \<bar>?H\<bar>)"
      and d: "?H - ?L \<noteq> 0" by simp_all
    have u: "\<bar>?L\<bar> / (\<bar>?L\<bar> + \<bar>?H\<bar>) \<le> hi / (hi + lo)" "0 \<le> \<bar>?L\<bar> / (\<bar>?L\<bar> + \<bar>?H\<bar>)"
      using weight_bound [OF lo(1) bl bh] by simp_all
    have v: "\<bar>?H\<bar> / (\<bar>?L\<bar> + \<bar>?H\<bar>) \<le> hi / (hi + lo)" "0 \<le> \<bar>?H\<bar> / (\<bar>?L\<bar> + \<bar>?H\<bar>)"
      using weight_bound [OF lo(1) bh bl] by (simp_all add: add.commute)
    have rho: "0 \<le> hi / (hi + lo)" "hi / (hi + lo) \<le> 1" using lo by simp_all
    have e1: "?g - ?l = (?h - ?l) * (\<bar>?L\<bar> / (\<bar>?L\<bar> + \<bar>?H\<bar>))"
      unfolding false_position_split(1) [OF d] w(1) ..
    have e2: "?h - ?g = (?h - ?l) * (\<bar>?H\<bar> / (\<bar>?L\<bar> + \<bar>?H\<bar>))"
      unfolding false_position_split(2) [OF d] w(2) ..
    have gl: "\<bar>?g - ?l\<bar> = ?W * (\<bar>?L\<bar> / (\<bar>?L\<bar> + \<bar>?H\<bar>))"
      unfolding e1 abs_mult using u(2) by simp
    have hg: "\<bar>?h - ?g\<bar> = ?W * (\<bar>?H\<bar> / (\<bar>?L\<bar> + \<bar>?H\<bar>))"
      unfolding e2 abs_mult using v(2) by simp
    have gl': "\<bar>?g - ?l\<bar> \<le> hi / (hi + lo) * ?W"
      unfolding gl using mult_right_mono [OF u(1), of ?W] by (simp only: abs_ge_zero mult.commute)
    have hg': "\<bar>?h - ?g\<bar> \<le> hi / (hi + lo) * ?W"
      unfolding hg using mult_right_mono [OF v(1), of ?W] by (simp only: abs_ge_zero mult.commute)
    have "hi / (hi + lo) * ?W \<le> 1 * ?W" using rho(2) by (intro mult_right_mono) simp_all
    with gl' hg' have "\<bar>?g - ?l\<bar> \<le> ?W" "\<bar>?h - ?g\<bar> \<le> ?W" by simp_all
    moreover from br have "time bg = ?l \<or> time bg = ?h" by (simp add: bracketing_def)
    ultimately have "\<bar>?g - time bg\<bar> \<le> ?W" by auto
    with False have wide: "1 / 1000000000 < ?W" by simp
    let ?p = "calc ?g - target"
    let ?guess = "\<lparr>time = ?g, position = calc ?g\<rparr>"
    let ?tr' = "tr @ [Calc ?g]"
    from orc have ap: "apart lo hi ?p" by simp
    show ?thesis
    proof (cases "(?p < 0) = hs")
      case True
      let ?high' = "\<lparr>time = ?g, position = ?p\<rparr>"
      from False True have "find_step_loop calc target hs low high bg tr
          = find_step_loop calc target hs low ?high' ?guess ?tr'"
        by (subst find_step_loop.simps) (simp add: Let_def)
      moreover from br nz True ap have "bracketing lo hi hs low ?high' ?guess"
        by (simp add: bracketing_def)
      moreover from gl' have "\<bar>time ?high' - ?l\<bar> \<le> hi / (hi + lo) * ?W" by simp
      ultimately show ?thesis using wide by blast
    next
      case neq: False
      let ?low' = "\<lparr>time = ?g, position = ?p\<rparr>"
      from False neq have "find_step_loop calc target hs low high bg tr
          = find_step_loop calc target hs ?low' high ?guess ?tr'"
        by (subst find_step_loop.simps) (simp add: Let_def)
      moreover from br nz neq ap have "bracketing lo hi hs ?low' high ?guess"
        by (simp add: bracketing_def)
      moreover from hg' have "\<bar>?h - time ?low'\<bar> \<le> hi / (hi + lo) * ?W" by simp
      ultimately show ?thesis using wide by blast
    qed
  qed
qed

lemma find_step_loop_converges:
  assumes lo: "0 < lo" "lo \<le> hi"
    and orc: "\<forall>t. apart lo hi (calc t - target)"
  shows "bracketing lo hi hs low high bg
     \<Longrightarrow> (hi / (hi + lo)) ^ n * \<bar>time high - time low\<bar> \<le> 1 / 1000000000
     \<Longrightarrow> \<exists>y. find_step_loop calc target hs low high bg tr = Some y"
proof (induction n arbitrary: low high bg tr)
  case 0
  with find_step_loop_pass [OF lo orc 0(1), of tr] show ?case by auto
next
  case (Suc n)
  from find_step_loop_pass [OF lo orc Suc.prems(1), of tr]
  consider "\<exists>y. find_step_loop calc target hs low high bg tr = Some y"
    | low' high' bg' tr' where
      "find_step_loop calc target hs low high bg tr
         = find_step_loop calc target hs low' high' bg' tr'"
      "bracketing lo hi hs low' high' bg'"
      "\<bar>time high' - time low'\<bar> \<le> hi / (hi + lo) * \<bar>time high - time low\<bar>"
    by blast
  then show ?case
  proof cases
    case 1
    then show ?thesis .
  next
    case 2
    have "0 \<le> (hi / (hi + lo)) ^ n" using lo by simp
    then have "(hi / (hi + lo)) ^ n * \<bar>time high' - time low'\<bar>
        \<le> (hi / (hi + lo)) ^ n * (hi / (hi + lo) * \<bar>time high - time low\<bar>)"
      using 2(3) by (rule mult_left_mono [rotated])
    also have "\<dots> = (hi / (hi + lo)) ^ Suc n * \<bar>time high - time low\<bar>"
      by (simp add: mult_ac)
    also note Suc.prems(2)
    finally have "(hi / (hi + lo)) ^ n * \<bar>time high' - time low'\<bar> \<le> 1 / 1000000000" .
    from Suc.IH [OF 2(2) this] 2(1) show ?thesis by simp
  qed
qed

lemma geometric_reaches:
  fixes r w e :: real
  assumes "0 \<le> r" and "r < 1" and "0 < e"
  shows "\<exists>n. r ^ n * \<bar>w\<bar> \<le> e"
proof (cases "w = 0")
  case True
  with assms show ?thesis by simp
next
  case False
  with assms have "0 < e / \<bar>w\<bar>" by simp
  from real_arch_pow_inv [OF this assms(2)] obtain n where "r ^ n < e / \<bar>w\<bar>" ..
  with False have "r ^ n * \<bar>w\<bar> < e" by (simp add: field_simps)
  then show ?thesis by (auto intro: less_imp_le)
qed


lemma find_step_loop_returns:
  assumes lo: "0 < lo" "lo \<le> hi"
    and orc: "\<forall>t. apart lo hi (calc t - target)"
    and br: "bracketing lo hi hs low high bg"
  shows "\<exists>y. find_step_loop calc target hs low high bg tr = Some y"
proof -
  from lo have "0 \<le> hi / (hi + lo)" "hi / (hi + lo) < 1" by simp_all
  from geometric_reaches [OF this, of "1 / 1000000000" "time high - time low"]
  obtain n where "(hi / (hi + lo)) ^ n * \<bar>time high - time low\<bar> \<le> 1 / 1000000000" by auto
  from find_step_loop_converges [OF lo orc br this] show ?thesis .
qed

lemma itersolve_find_step_returns:
  assumes lo: "0 < lo" "lo \<le> hi"
    and orc: "\<forall>t. apart lo hi (calc t - target)"
    and al: "apart lo hi (position low - target)"
    and ah: "apart lo hi (position high - target)"
  shows "\<exists>y. itersolve_find_step calc low high target tr = Some y"
proof -
  let ?low = "low\<lparr>position := position low - target\<rparr>"
  let ?high = "high\<lparr>position := position high - target\<rparr>"
  let ?hs = "position high - target < 0"
  consider "position high - target = 0"
    | "position high - target \<noteq> 0" "?hs = (position low - target < 0)"
    | "position high - target \<noteq> 0" "?hs \<noteq> (position low - target < 0)" "position low - target \<noteq> 0"
    | "position high - target \<noteq> 0" "?hs \<noteq> (position low - target < 0)" "position low - target = 0"
    by blast
  then show ?thesis
  proof cases
    case 1
    then show ?thesis by (simp add: itersolve_find_step_def Let_def)
  next
    case 2
    then show ?thesis by (simp add: itersolve_find_step_def Let_def)
  next
    case 3
    with al ah have "bracketing lo hi ?hs ?low ?high high"
      by (auto simp: bracketing_def)
    from find_step_loop_returns [OF lo orc this, of tr] 3 show ?thesis
      by (simp add: itersolve_find_step_def Let_def)
  next
    case 4
    then have hs: "?hs" by auto
    let ?l = "time low"
    have g: "(time ?low * position ?high - time ?high * position ?low)
               / (position ?high - position ?low) = ?l"
      using 4 by simp
    let ?p = "calc ?l - target"
    let ?guess = "\<lparr>time = ?l, position = calc ?l\<rparr>"
    from orc have ap: "apart lo hi ?p" by simp
    have "\<exists>y. find_step_loop calc target ?hs ?low ?high high tr = Some y"
    proof (cases "\<bar>?l - time high\<bar> \<le> 1 / 1000000000")
      case True
      with g show ?thesis by (subst find_step_loop.simps) (simp add: Let_def)
    next
      case far: False
      show ?thesis
      proof (cases "?p < 0")
        case True
        let ?high' = "\<lparr>time = ?l, position = ?p\<rparr>"
        from far True hs g have "find_step_loop calc target ?hs ?low ?high high tr
            = find_step_loop calc target ?hs ?low ?high' ?guess (tr @ [Calc ?l])"
          by (subst find_step_loop.simps) (simp add: Let_def)
        moreover from True hs 4 ap have "bracketing lo hi ?hs ?low ?high' ?guess"
          by (simp add: bracketing_def apart_def)
        from find_step_loop_returns [OF lo orc this]
        have "\<exists>y. find_step_loop calc target ?hs ?low ?high' ?guess (tr @ [Calc ?l]) = Some y" .
        ultimately show ?thesis by simp
      next
        case False
        let ?low' = "\<lparr>time = ?l, position = ?p\<rparr>"
        from far False hs g have "find_step_loop calc target ?hs ?low ?high high tr
            = find_step_loop calc target ?hs ?low' ?high ?guess (tr @ [Calc ?l])"
          by (subst find_step_loop.simps) (simp add: Let_def)
        moreover from False hs 4 ap ah have "bracketing lo hi ?hs ?low' ?high ?guess"
          by (simp add: bracketing_def)
        from find_step_loop_returns [OF lo orc this]
        have "\<exists>y. find_step_loop calc target ?hs ?low' ?high ?guess (tr @ [Calc ?l]) = Some y" .
        ultimately show ?thesis by simp
      qed
    qed
    with 4 show ?thesis by (simp add: itersolve_find_step_def Let_def)
  qed
qed

end
